theory Spec2Isabelle
  imports Complex_Main "HOL-Library.AList" "HOL-Library.Multiset"
begin

section \<open>Multi-backend similarity search: \<open>app/services/vector_stores.py\<close>\<close>

text \<open>
  A shallow embedding of \<open>VectorStoreService.search\<close>, its SQL fast path
  \<open>_direct_pgvector_search\<close>, the generic helper \<open>_search_store\<close> and the HTTP
  handler \<open>search_documents\<close> of \<open>app/routers/vector_stores.py\<close>.

  Everything outside the repository is a field of an environment record: the embedding
  endpoint, the PostgreSQL connection, the LangChain store objects and the random
  \<open>uuid.uuid4()\<close> generator. Exceptions are values of the type \<open>error\<close>; a function
  that can raise returns \<open>error + 'a\<close>, with \<open>Inl\<close> the exception.
\<close>

subsection \<open>Python values\<close>

text \<open>
  A Python \<open>float\<close>. The code never does arithmetic on a score: it compares scores
  (\<open>list.sort\<close>), tests \<open>math.isnan\<close> and copies them. A finite float is therefore
  represented by the real number it denotes.
\<close>

datatype pyfloat = Fin real | PosInf | NegInf | NaN

text \<open>Python's \<open>a < b\<close> on floats: every comparison with NaN is false.\<close>

fun py_lt :: "pyfloat \<Rightarrow> pyfloat \<Rightarrow> bool" where
  "py_lt NaN b = False"
| "py_lt a NaN = False"
| "py_lt (Fin a) (Fin b) = (a < b)"
| "py_lt (Fin a) PosInf = True"
| "py_lt (Fin a) NegInf = False"
| "py_lt PosInf b = False"
| "py_lt NegInf NegInf = False"
| "py_lt NegInf b = True"

text \<open>Python's \<open>a >= b\<close> on floats.\<close>

fun py_ge :: "pyfloat \<Rightarrow> pyfloat \<Rightarrow> bool" where
  "py_ge NaN b = False"
| "py_ge a NaN = False"
| "py_ge a b = (\<not> py_lt a b)"

fun isnan :: "pyfloat \<Rightarrow> bool" where
  "isnan NaN = True"
| "isnan a = False"

text \<open>Truth value of an \<open>Optional[List[str]]\<close>: \<open>None\<close> and \<open>[]\<close> are both false.\<close>

fun truthy :: "'a list option \<Rightarrow> bool" where
  "truthy None = False"
| "truthy (Some xs) = (xs \<noteq> [])"

text \<open>\<open>sep.join(parts)\<close>.\<close>

fun py_join :: "string \<Rightarrow> string list \<Rightarrow> string" where
  "py_join sep [] = []"
| "py_join sep [x] = x"
| "py_join sep (x # y # ys) = x @ sep @ py_join sep (y # ys)"

text \<open>\<open>str(k)\<close> for a Python \<open>int\<close>: decimal digits, with a leading minus sign.\<close>

definition digit_char :: "nat \<Rightarrow> char" where
  "digit_char d = ''0123456789'' ! (d mod 10)"

function str_nat :: "nat \<Rightarrow> string" where
  "str_nat n = (if n < 10 then [digit_char n] else str_nat (n div 10) @ [digit_char (n mod 10)])"
  by pat_completeness auto
termination
  by (relation "measure (\<lambda>n. n)") auto

definition str_int :: "int \<Rightarrow> string" where
  "str_int i = (if i < 0 then CHR ''-'' # str_nat (nat (- i)) else str_nat (nat i))"

text \<open>
  The slice \<open>xs[:k]\<close>: the first \<open>k\<close> elements for \<open>k \<ge> 0\<close>; for a negative \<open>k\<close>
  Python counts from the end, so the last \<open>-k\<close> elements are dropped.
\<close>

definition py_slice_to :: "int \<Rightarrow> 'a list \<Rightarrow> 'a list" where
  "py_slice_to k xs =
     (if 0 \<le> k then take (nat k) xs else take (length xs - nat (- k)) xs)"

subsection \<open>Data model: \<open>app/models/schema.py\<close>\<close>

datatype error =
    EmbeddingError string
  | DatabaseError string
  | StoreError string
  | RowError string
  | ValidationError string

text \<open>
  The metadata dictionary of a stored chunk, as far as the search reads it. A field is
  \<open>None\<close> when the key is absent (\<open>metadata.get(key, default)\<close> then yields the
  default). A key that is present holds a value of the type the schema expects, as the
  ingestion script writes it.
\<close>

record meta_dict =
  m_documentId :: "string option"
  m_documentName :: "string option"
  m_chunkId :: "string option"
  m_chunkIndex :: "int option"
  m_tags :: "string list option"
  m_similarity :: "pyfloat option"

definition empty_meta :: meta_dict where
  "empty_meta = \<lparr> m_documentId = None, m_documentName = None, m_chunkId = None,
     m_chunkIndex = None, m_tags = None, m_similarity = None \<rparr>"

record DocumentMetadata =
  documentId :: string
  documentName :: string
  chunkId :: string
  chunkIndex :: "int option"
  tags :: "string list option"

record DocumentResponse =
  content :: string
  metadata :: DocumentMetadata
  source_id :: string
  source_name :: string
  source_type :: string
  similarity :: pyfloat

subsection \<open>External collaborators\<close>

text \<open>A LangChain \<open>Document\<close>: \<open>doc.metadata\<close> may be \<open>None\<close>.\<close>

record document =
  page_content :: string
  doc_metadata :: "meta_dict option"

text \<open>The filter passed to a generic store: \<open>{"collection": {"$in": ...}, "tags": {"$in": ...}}\<close>.\<close>

record filter_dict =
  f_collection :: "string list option"
  f_tags :: "string list option"

record store_info =
  info_id :: string
  info_name :: string
  info_type :: string
  info_description :: string

text \<open>
  An entry of \<open>self.vector_stores\<close>: \<open>store\<close> is the \<open>similarity_search\<close> method of the
  store object, applied to \<open>query\<close>, \<open>k\<close> and \<open>filter\<close>; it returns documents or raises.
\<close>

record store_data =
  store :: "string \<Rightarrow> int \<Rightarrow> filter_dict option \<Rightarrow> error + document list"
  info :: store_info

text \<open>
  The \<open>metadata\<close> column of a fetched row: a dictionary (a JSONB value, or a string that
  \<open>json.loads\<close> turns into one), a value that is not and does not parse to a dictionary,
  or an empty value.
\<close>

datatype metadata_json = MetaDict meta_dict | MetaMalformed | MetaEmpty

text \<open>
  A fetched row \<open>(content, metadata, similarity)\<close>. The third column is the value of the
  server-side expression \<open>1 - (embedding <=> vector)\<close>; it is \<open>None\<close> for SQL NULL.
\<close>

type_synonym row = "string \<times> metadata_json \<times> pyfloat option"

text \<open>
  The environment of the service.
  \<^item> \<open>ENABLE_PGVECTOR\<close>, \<open>PGVECTOR_TABLE_NAME\<close>: configuration (\<open>app/config.py\<close>).
  \<^item> \<open>vector_stores\<close>: the dictionary \<open>self.vector_stores\<close>, in insertion order.
  \<^item> \<open>embed_query\<close>: \<open>embeddings_service.embed_query\<close>. The code uses only
    \<open>str(value)\<close> of each component of the embedding, so a component is kept as that
    rendering.
  \<^item> \<open>get_db_connection\<close>: \<open>self._get_db_connection()\<close> raises, or yields a connection;
    a connection is what \<open>cursor.execute(sql); cursor.fetchall()\<close> does with a query text.
  \<^item> \<open>uuid4\<close>: the \<open>n\<close>-th value that \<open>str(uuid.uuid4())\<close> returns in this process.
\<close>

record env =
  ENABLE_PGVECTOR :: bool
  PGVECTOR_TABLE_NAME :: string
  vector_stores :: "(string \<times> store_data) list"
  embed_query :: "string \<Rightarrow> error + string list"
  get_db_connection :: "error + (string \<Rightarrow> error + row list)"
  uuid4 :: "nat \<Rightarrow> string"

subsection \<open>The SQL fast path: \<open>_direct_pgvector_search\<close>\<close>

definition quote :: string where
  "quote = [CHR 0x27]"

text \<open>The loop that renders the embedding as \<open>[v0,v1,...]\<close>.\<close>

fun vector_str_loop :: "string \<Rightarrow> nat \<Rightarrow> string list \<Rightarrow> string" where
  "vector_str_loop vector_str i [] = vector_str"
| "vector_str_loop vector_str i (v # vs) =
     vector_str_loop ((if 0 < i then vector_str @ '','' else vector_str) @ v) (Suc i) vs"

definition vector_str_of :: "string list \<Rightarrow> string" where
  "vector_str_of query_embedding = vector_str_loop ''['' 0 query_embedding @ '']''"

text \<open>The f-string that opens the query, with its line breaks and indentation.\<close>

definition select_sql :: "string \<Rightarrow> string \<Rightarrow> string" where
  "select_sql table_name vector_str =
     ''\<newline>                SELECT content, metadata, \<newline>                       1 - (embedding <=> ''
     @ quote @ vector_str @ quote
     @ ''::vector) AS similarity\<newline>                FROM '' @ table_name
     @ ''\<newline>            ''"

text \<open>
  The WHERE clauses. Each collection id is wrapped in single quotes and joined into the
  \<open>IN (...)\<close> list; each tag is written into \<open>metadata->'tags' ? '<tag>'\<close>.
\<close>

definition collection_clause :: "string list \<Rightarrow> string" where
  "collection_clause collection_ids =
     ''metadata->>'collection' IN (''
     @ py_join '', '' (map (\<lambda>cid. quote @ cid @ quote) collection_ids) @ '')''"

definition tag_condition :: "string \<Rightarrow> string" where
  "tag_condition tag = ''metadata->'tags' ? '' @ quote @ tag @ quote"

definition where_clauses :: "string list option \<Rightarrow> string list option \<Rightarrow> string list" where
  "where_clauses collection_ids tags_filter =
     (if truthy collection_ids then [collection_clause (the collection_ids)] else [])
     @ (if truthy tags_filter
        then [''('' @ py_join '' OR '' (map tag_condition (the tags_filter)) @ '')'']
        else [])"

definition build_sql ::
  "string \<Rightarrow> string list \<Rightarrow> int \<Rightarrow> string list option \<Rightarrow> string list option \<Rightarrow> string" where
  "build_sql table_name query_embedding k collection_ids tags_filter =
     (let sql = select_sql table_name (vector_str_of query_embedding);
          wcs = where_clauses collection_ids tags_filter;
          sql = (if wcs \<noteq> [] then sql @ '' WHERE '' @ py_join '' AND '' wcs else sql)
      in sql @ '' ORDER BY similarity DESC LIMIT '' @ str_int k)"

text \<open>
  The body of the loop over the fetched rows. Both \<open>str(uuid.uuid4())\<close> defaults are
  evaluated before \<open>metadata.get\<close> looks the key up, so a row that reaches
  \<open>DocumentMetadata(...)\<close> consumes two identifiers whether it uses them or not. A row
  whose metadata does not parse raises before that; a row whose similarity is NULL fails
  the validation of \<open>DocumentResponse\<close> after it.
\<close>

definition process_row :: "(nat \<Rightarrow> string) \<Rightarrow> nat \<Rightarrow> row \<Rightarrow> (error + DocumentResponse) \<times> nat" where
  "process_row uuid n r =
     (case r of (content_col, metadata_col, similarity_col) \<Rightarrow>
        (case metadata_col of
           MetaMalformed \<Rightarrow> (Inl (RowError ''metadata''), n)
         | _ \<Rightarrow>
           (let md = (case metadata_col of MetaDict d \<Rightarrow> d | _ \<Rightarrow> empty_meta);
                md = md\<lparr> m_similarity := similarity_col \<rparr>;
                doc_md = \<lparr> documentId = (case m_documentId md of Some v \<Rightarrow> v | None \<Rightarrow> uuid n),
                           documentName = (case m_documentName md of Some v \<Rightarrow> v
                                           | None \<Rightarrow> ''Unknown Document''),
                           chunkId = (case m_chunkId md of Some v \<Rightarrow> v | None \<Rightarrow> uuid (n + 1)),
                           chunkIndex = m_chunkIndex md,
                           tags = (case m_tags md of Some v \<Rightarrow> Some v | None \<Rightarrow> Some []) \<rparr>
            in (case similarity_col of
                  None \<Rightarrow> (Inl (ValidationError ''similarity''), n + 2)
                | Some s \<Rightarrow>
                    (Inr \<lparr> content = content_col, metadata = doc_md,
                           source_id = ''pgvector-1'',
                           source_name = ''PostgreSQL Vector DB'',
                           source_type = ''pgvector'',
                           similarity = s \<rparr>, n + 2)))))"

text \<open>
  The loop over the rows: a row that raises is logged and skipped; the others are
  appended to \<open>results\<close> in the order they were fetched.
\<close>

fun process_rows :: "(nat \<Rightarrow> string) \<Rightarrow> nat \<Rightarrow> row list \<Rightarrow> DocumentResponse list \<times> nat" where
  "process_rows uuid n [] = ([], n)"
| "process_rows uuid n (r # rs) =
     (case process_row uuid n r of
        (Inl e, n') \<Rightarrow> process_rows uuid n' rs
      | (Inr d, n') \<Rightarrow> (case process_rows uuid n' rs of (ds, n'') \<Rightarrow> (d # ds, n'')))"

text \<open>
  \<open>_direct_pgvector_search\<close>: an exception of the embedding call, of the connection or of
  \<open>cursor.execute\<close> is logged and raised again.
\<close>

definition direct_pgvector_search ::
  "env \<Rightarrow> nat \<Rightarrow> string \<Rightarrow> int \<Rightarrow> string list option \<Rightarrow> string list option
   \<Rightarrow> (error + DocumentResponse list) \<times> nat" where
  "direct_pgvector_search e n query k collection_ids tags_filter =
     (case embed_query e query of
        Inl err \<Rightarrow> (Inl err, n)
      | Inr query_embedding \<Rightarrow>
          (case get_db_connection e of
             Inl err \<Rightarrow> (Inl err, n)
           | Inr execute \<Rightarrow>
               (case execute (build_sql (PGVECTOR_TABLE_NAME e) query_embedding k
                               collection_ids tags_filter) of
                  Inl err \<Rightarrow> (Inl err, n)
                | Inr rows \<Rightarrow>
                    (case process_rows (uuid4 e) n rows of (results, n') \<Rightarrow> (Inr results, n')))))"

subsection \<open>The generic path\<close>

text \<open>\<open>_search_store\<close>: an exception of the store is logged and becomes the empty list.\<close>

definition search_store ::
  "(string \<Rightarrow> int \<Rightarrow> filter_dict option \<Rightarrow> error + document list)
   \<Rightarrow> string \<Rightarrow> int \<Rightarrow> filter_dict option \<Rightarrow> document list" where
  "search_store st query k fd =
     (case st query k fd of Inr docs \<Rightarrow> docs | Inl err \<Rightarrow> [])"

definition build_filter_dict :: "string list option \<Rightarrow> string list option \<Rightarrow> filter_dict option" where
  "build_filter_dict collection_ids tags_filter =
     (if \<not> truthy collection_ids \<and> \<not> truthy tags_filter then None
      else Some \<lparr> f_collection = (if truthy collection_ids then collection_ids else None),
                  f_tags = (if truthy tags_filter then tags_filter else None) \<rparr>)"

text \<open>Formatting one document of a store; the two identifiers are drawn as in the fast path.\<close>

definition format_doc :: "(nat \<Rightarrow> string) \<Rightarrow> nat \<Rightarrow> string \<Rightarrow> store_info \<Rightarrow> document \<Rightarrow> DocumentResponse" where
  "format_doc uuid n store_id st_info doc =
     (let md = (case doc_metadata doc of Some d \<Rightarrow> d | None \<Rightarrow> empty_meta);
          doc_md = \<lparr> documentId = (case m_documentId md of Some v \<Rightarrow> v | None \<Rightarrow> uuid n),
                     documentName = (case m_documentName md of Some v \<Rightarrow> v
                                     | None \<Rightarrow> ''Unknown Document''),
                     chunkId = (case m_chunkId md of Some v \<Rightarrow> v | None \<Rightarrow> uuid (n + 1)),
                     chunkIndex = m_chunkIndex md,
                     tags = (case m_tags md of Some v \<Rightarrow> Some v | None \<Rightarrow> Some []) \<rparr>
      in \<lparr> content = page_content doc, metadata = doc_md,
           source_id = store_id,
           source_name = info_name st_info,
           source_type = info_type st_info,
           similarity = (case m_similarity md of Some s \<Rightarrow> s | None \<Rightarrow> Fin 0) \<rparr>)"

fun format_docs ::
  "(nat \<Rightarrow> string) \<Rightarrow> nat \<Rightarrow> string \<Rightarrow> store_info \<Rightarrow> document list \<Rightarrow> DocumentResponse list \<times> nat" where
  "format_docs uuid n store_id st_info [] = ([], n)"
| "format_docs uuid n store_id st_info (doc # docs) =
     (case format_docs uuid (n + 2) store_id st_info docs of
        (ds, n') \<Rightarrow> (format_doc uuid n store_id st_info doc # ds, n'))"

text \<open>The loop over \<open>stores_to_search.items()\<close>; the results of the stores are appended in turn.\<close>

fun search_stores ::
  "(nat \<Rightarrow> string) \<Rightarrow> nat \<Rightarrow> string \<Rightarrow> int \<Rightarrow> string list option \<Rightarrow> string list option
   \<Rightarrow> (string \<times> store_data) list \<Rightarrow> DocumentResponse list \<times> nat" where
  "search_stores uuid n query k collection_ids tags_filter [] = ([], n)"
| "search_stores uuid n query k collection_ids tags_filter ((store_id, sd) # rest) =
     (let docs = search_store (store sd) query k (build_filter_dict collection_ids tags_filter)
      in case format_docs uuid n store_id (info sd) docs of
           (ds, n') \<Rightarrow>
             (case search_stores uuid n' query k collection_ids tags_filter rest of
                (ds', n'') \<Rightarrow> (ds @ ds', n'')))"

text \<open>
  \<open>stores_to_search\<close> when \<open>backend_ids\<close> is given: a dictionary filled in the order of
  \<open>backend_ids\<close>; assigning a key a second time keeps its place.
\<close>

fun select_stores ::
  "(string \<times> store_data) list \<Rightarrow> string list \<Rightarrow> (string \<times> store_data) list
   \<Rightarrow> (string \<times> store_data) list" where
  "select_stores vs [] acc = acc"
| "select_stores vs (store_id # ids) acc =
     (case map_of vs store_id of
        Some sd \<Rightarrow> select_stores vs ids (AList.update store_id sd acc)
      | None \<Rightarrow> select_stores vs ids acc)"

definition stores_to_search :: "env \<Rightarrow> string list option \<Rightarrow> (string \<times> store_data) list" where
  "stores_to_search e backend_ids =
     (if truthy backend_ids then select_stores (vector_stores e) (the backend_ids) []
      else vector_stores e)"

text \<open>
  \<open>results.sort(key=lambda x: x.similarity, reverse=True)\<close>: a stable sort that uses only
  \<open><\<close> on the keys. An element is placed after the elements whose key is greater and
  before every later element whose key is not. On keys without NaN the result is the one
  stable descending order; with a NaN among the keys the comparisons are inconsistent,
  and the order Python leaves is as arbitrary as the one computed here.
\<close>

fun insert_desc :: "DocumentResponse \<Rightarrow> DocumentResponse list \<Rightarrow> DocumentResponse list" where
  "insert_desc x [] = [x]"
| "insert_desc x (y # ys) =
     (if py_lt (similarity x) (similarity y) then y # insert_desc x ys else x # y # ys)"

fun sort_desc :: "DocumentResponse list \<Rightarrow> DocumentResponse list" where
  "sort_desc [] = []"
| "sort_desc (x # xs) = insert_desc x (sort_desc xs)"

text \<open>The generic path of \<open>search\<close>, from \<open>stores_to_search\<close> on.\<close>

definition fallback_search ::
  "env \<Rightarrow> nat \<Rightarrow> string \<Rightarrow> int \<Rightarrow> string list option \<Rightarrow> string list option \<Rightarrow> string list option
   \<Rightarrow> (error + DocumentResponse list) \<times> nat" where
  "fallback_search e n query k backend_ids collection_ids tags_filter =
     (let sts = stores_to_search e backend_ids
      in if sts = [] then (Inr [], n)
         else (case search_stores (uuid4 e) n query k collection_ids tags_filter sts of
                 (results, n') \<Rightarrow> (Inr (py_slice_to k (sort_desc results)), n')))"

subsection \<open>\<open>VectorStoreService.search\<close> and the handler \<open>search_documents\<close>\<close>

definition use_direct :: "env \<Rightarrow> string list option \<Rightarrow> bool" where
  "use_direct e backend_ids =
     (ENABLE_PGVECTOR e \<and> (\<not> truthy backend_ids \<or> ''pgvector-1'' \<in> set (the backend_ids)))"

definition search ::
  "env \<Rightarrow> nat \<Rightarrow> string \<Rightarrow> int \<Rightarrow> string list option \<Rightarrow> string list option \<Rightarrow> string list option
   \<Rightarrow> (error + DocumentResponse list) \<times> nat" where
  "search e n query k backend_ids collection_ids tags_filter =
     (if use_direct e backend_ids
      then (case direct_pgvector_search e n query k collection_ids tags_filter of
              (Inr direct_results, n') \<Rightarrow>
                (if direct_results \<noteq> [] then (Inr direct_results, n')
                 else fallback_search e n' query k backend_ids collection_ids tags_filter)
            | (Inl err, n') \<Rightarrow>
                fallback_search e n' query k backend_ids collection_ids tags_filter)
      else fallback_search e n query k backend_ids collection_ids tags_filter)"

text \<open>The handler replaces a NaN similarity by \<open>0.0\<close> in every result.\<close>

definition clean_nan :: "DocumentResponse \<Rightarrow> DocumentResponse" where
  "clean_nan r = (if isnan (similarity r) then r\<lparr> similarity := Fin 0 \<rparr> else r)"

definition search_documents ::
  "env \<Rightarrow> nat \<Rightarrow> string \<Rightarrow> int \<Rightarrow> string list option \<Rightarrow> string list option \<Rightarrow> string list option
   \<Rightarrow> (error + DocumentResponse list) \<times> nat" where
  "search_documents e n query k backend_id collection_id tag =
     (case search e n query k backend_id collection_id tag of
        (Inr results, n') \<Rightarrow> (Inr (map clean_nan results), n')
      | (Inl err, n') \<Rightarrow> (Inl err, n'))"

subsection \<open>Notions used in the statements\<close>

text \<open>A match with its two identifiers blanked: what two matches share when only their
  synthesized identifiers differ.\<close>

definition without_ids :: "DocumentResponse \<Rightarrow> DocumentResponse" where
  "without_ids r = r\<lparr> metadata := (metadata r)\<lparr> documentId := [], chunkId := [] \<rparr> \<rparr>"

text \<open>
  A list of matches, each paired with the generator state \<open>p\<close> at which its two
  \<open>uuid4\<close> calls were made: the calls are number \<open>p\<close> and \<open>p + 1\<close>. The states
  lie between \<open>lo\<close> and \<open>hi\<close>, an even distance from \<open>lo\<close>, and no two matches
  share one, so no call serves two matches.
\<close>

definition draws :: "nat \<Rightarrow> nat \<Rightarrow> (nat \<times> DocumentResponse) list \<Rightarrow> bool" where
  "draws lo hi prs =
     (distinct (map fst prs) \<and> (\<forall>(p, r)\<in>set prs. lo \<le> p \<and> p + 2 \<le> hi \<and> even (p - lo)))"

section \<open>Example environments\<close>

text \<open>
  The descriptors that \<open>_init_pgvector\<close> and \<open>_init_pinecone\<close> register, and small
  environments built from them: a database that answers every query with a fixed list of
  rows, stores that answer every search with a fixed result, and a generator whose
  \<open>i\<close>-th identifier is \<open>uuid-i\<close>.
\<close>

definition pgvector_info :: store_info where
  "pgvector_info = \<lparr> info_id = ''pgvector-1'', info_name = ''PostgreSQL Vector DB'',
     info_type = ''pgvector'', info_description = ''Local PostgreSQL with pgvector extension'' \<rparr>"

definition pinecone_info :: store_info where
  "pinecone_info = \<lparr> info_id = ''pinecone-1'', info_name = ''Pinecone Vector DB'',
     info_type = ''pinecone'', info_description = ''Cloud-based Pinecone vector database'' \<rparr>"

definition example_uuid4 :: "nat \<Rightarrow> string" where
  "example_uuid4 i = ''uuid-'' @ str_nat i"

definition example_env :: "bool \<Rightarrow> row list \<Rightarrow> (string \<times> store_data) list \<Rightarrow> env" where
  "example_env enabled rows stores =
     \<lparr> ENABLE_PGVECTOR = enabled, PGVECTOR_TABLE_NAME = ''documents'',
       vector_stores = stores,
       embed_query = (\<lambda>q. Inr [''0.1'', ''-0.2'']),
       get_db_connection = Inr (\<lambda>sql. Inr rows),
       uuid4 = example_uuid4 \<rparr>"

definition pinecone_store :: "error + document list \<Rightarrow> store_data" where
  "pinecone_store result = \<lparr> store = (\<lambda>q k fd. result), info = pinecone_info \<rparr>"

definition pgvector_store :: "error + document list \<Rightarrow> store_data" where
  "pgvector_store result = \<lparr> store = (\<lambda>q k fd. result), info = pgvector_info \<rparr>"

definition meta_with_ids :: "string \<Rightarrow> string \<Rightarrow> meta_dict" where
  "meta_with_ids doc_id chunk_id =
     empty_meta\<lparr> m_documentId := Some doc_id, m_chunkId := Some chunk_id \<rparr>"

definition apollo_rows :: "row list" where
  "apollo_rows = [(''alpha'', MetaDict (meta_with_ids ''doc-001'' ''chunk-001''), Some (Fin (91 / 100))),
                  (''beta'', MetaDict (meta_with_ids ''doc-002'' ''chunk-002''), Some (Fin (77 / 100)))]"

definition pgvector_match :: "string \<Rightarrow> string \<Rightarrow> string \<Rightarrow> pyfloat \<Rightarrow> DocumentResponse" where
  "pgvector_match c doc_id chunk_id s =
     \<lparr> content = c,
       metadata = \<lparr> documentId = doc_id, documentName = ''Unknown Document'', chunkId = chunk_id,
                    chunkIndex = None, tags = Some [] \<rparr>,
       source_id = ''pgvector-1'', source_name = ''PostgreSQL Vector DB'',
       source_type = ''pgvector'', similarity = s \<rparr>"

definition apollo_matches :: "DocumentResponse list" where
  "apollo_matches = [pgvector_match ''alpha'' ''doc-001'' ''chunk-001'' (Fin (91 / 100)),
                     pgvector_match ''beta'' ''doc-002'' ''chunk-002'' (Fin (77 / 100))]"

definition plain_doc :: "string \<Rightarrow> pyfloat option \<Rightarrow> document" where
  "plain_doc c s = \<lparr> page_content = c, doc_metadata = Some (empty_meta\<lparr> m_similarity := s \<rparr>) \<rparr>"

definition tie_docs :: "document list" where
  "tie_docs = [plain_doc ''alpha'' (Some (Fin (1 / 2))), plain_doc ''beta'' (Some (Fin (9 / 10))),
               plain_doc ''gamma'' (Some (Fin (1 / 2)))]"

lemmas example_defs = example_env_def pinecone_store_def pgvector_store_def pinecone_info_def
  pgvector_info_def meta_with_ids_def apollo_rows_def pgvector_match_def apollo_matches_def
  plain_doc_def empty_meta_def

lemmas search_defs = search_def use_direct_def direct_pgvector_search_def fallback_search_def
  stores_to_search_def format_doc_def search_store_def
  build_filter_dict_def process_row_def py_slice_to_def search_documents_def clean_nan_def

section \<open>Auxiliary facts\<close>

subsection \<open>The two paths of \<open>search\<close>\<close>

lemma direct_ignores_vector_stores:
  "direct_pgvector_search (e\<lparr>vector_stores := vs\<rparr>) n query k cids tgs
   = direct_pgvector_search e n query k cids tgs"
  by (simp add: direct_pgvector_search_def cong: sum.case_cong)

lemma fallback_search_returns:
  "\<exists>rs n'. fallback_search e n query k bids cids tgs = (Inr rs, n')"
  by (simp add: fallback_search_def Let_def split: prod.splits)

lemma search_cases:
  "search e n query k bids cids tgs =
     (if use_direct e bids \<and> (\<exists>rs n'. direct_pgvector_search e n query k cids tgs = (Inr rs, n') \<and> rs \<noteq> [])
      then direct_pgvector_search e n query k cids tgs
      else fallback_search e (if use_direct e bids then snd (direct_pgvector_search e n query k cids tgs) else n)
             query k bids cids tgs)"
  by (auto simp: search_def split: prod.splits sum.splits)

lemma search_returns:
  "\<exists>rs n'. search e n query k bids cids tgs = (Inr rs, n')"
  using fallback_search_returns
  by (auto simp: search_cases)

lemma length_py_slice_to: "0 \<le> k \<Longrightarrow> int (length (py_slice_to k xs)) \<le> k"
  by (simp add: py_slice_to_def)

lemma length_process_rows:
  "process_rows u n rows = (rs, n') \<Longrightarrow> length rs \<le> length rows"
proof (induction rows arbitrary: n rs n')
  case Nil
  then show ?case by simp
next
  case (Cons r rows)
  obtain res n1 where r: "process_row u n r = (res, n1)" by (cases "process_row u n r")
  obtain ds n2 where t: "process_rows u n1 rows = (ds, n2)" by (cases "process_rows u n1 rows")
  have "length ds \<le> length rows" using Cons.IH[OF t] .
  then show ?case using Cons.prems r t by (cases res) auto
qed

lemma fallback_length:
  "0 \<le> k \<Longrightarrow> fallback_search e n query k bids cids tgs = (Inr rs, n') \<Longrightarrow> int (length rs) \<le> k"
  by (auto simp: fallback_search_def Let_def length_py_slice_to split: prod.splits if_splits)

lemma direct_rows:
  assumes "direct_pgvector_search e n query k cids tgs = (Inr rs, n')"
  shows "\<exists>execute emb rows. get_db_connection e = Inr execute \<and> embed_query e query = Inr emb
           \<and> execute (build_sql (PGVECTOR_TABLE_NAME e) emb k cids tgs) = Inr rows
           \<and> process_rows (uuid4 e) n rows = (rs, n')"
  using assms
  by (auto simp: direct_pgvector_search_def split: sum.splits prod.splits)

subsection \<open>Comparison of scores\<close>

lemma py_ge_trans: "py_ge a b \<Longrightarrow> py_ge b c \<Longrightarrow> py_ge a c"
  by (cases a; cases b; cases c) auto

lemma py_lt_imp_ge: "py_lt a b \<Longrightarrow> py_ge b a"
  by (cases a; cases b) auto

lemma not_py_lt_imp_ge: "\<not> isnan a \<Longrightarrow> \<not> isnan b \<Longrightarrow> \<not> py_lt a b \<Longrightarrow> py_ge a b"
  by (cases a; cases b) auto

lemma py_lt_neq: "py_lt a b \<Longrightarrow> a \<noteq> b"
  by (cases a; cases b) auto

subsection \<open>The sort\<close>

lemma set_insert_desc: "set (insert_desc x ys) = insert x (set ys)"
  by (induction ys) auto

lemma set_sort_desc: "set (sort_desc xs) = set xs"
  by (induction xs) (auto simp: set_insert_desc)

lemma mset_insert_desc: "mset (insert_desc x ys) = add_mset x (mset ys)"
  by (induction ys) auto

lemma mset_sort_desc: "mset (sort_desc xs) = mset xs"
  by (induction xs) (auto simp: mset_insert_desc)

lemma sorted_insert_desc:
  assumes "sorted_wrt (\<lambda>a b. py_ge (similarity a) (similarity b)) ys"
    and "\<not> isnan (similarity x)" and "\<forall>y\<in>set ys. \<not> isnan (similarity y)"
  shows "sorted_wrt (\<lambda>a b. py_ge (similarity a) (similarity b)) (insert_desc x ys)"
  using assms
proof (induction ys)
  case Nil
  then show ?case by simp
next
  case (Cons y ys)
  show ?case
  proof (cases "py_lt (similarity x) (similarity y)")
    case True
    then have "py_ge (similarity y) (similarity x)" by (rule py_lt_imp_ge)
    then show ?thesis using True Cons by (auto simp: set_insert_desc)
  next
    case False
    then have xy: "py_ge (similarity x) (similarity y)"
      using Cons.prems by (simp add: not_py_lt_imp_ge)
    have "\<forall>z\<in>set ys. py_ge (similarity x) (similarity z)"
      using xy Cons.prems(1) by (auto intro: py_ge_trans)
    then show ?thesis using False xy Cons.prems(1) by simp
  qed
qed

lemma sorted_sort_desc:
  "\<forall>x\<in>set xs. \<not> isnan (similarity x) \<Longrightarrow>
   sorted_wrt (\<lambda>a b. py_ge (similarity a) (similarity b)) (sort_desc xs)"
  by (induction xs) (auto simp: sorted_insert_desc set_sort_desc)

lemma filter_insert_desc:
  "filter (\<lambda>y. similarity y = v) (insert_desc x ys)
   = (if similarity x = v then x # filter (\<lambda>y. similarity y = v) ys
      else filter (\<lambda>y. similarity y = v) ys)"
  by (induction ys) (auto dest: py_lt_neq)

lemma stable_sort_desc:
  "filter (\<lambda>y. similarity y = v) (sort_desc xs) = filter (\<lambda>y. similarity y = v) xs"
  by (induction xs) (auto simp: filter_insert_desc)

lemma sorted_wrt_take: "sorted_wrt P xs \<Longrightarrow> sorted_wrt P (take m xs)"
  by (metis append_take_drop_id sorted_wrt_append)


subsection \<open>Where a match comes from\<close>

lemma process_rows_mem:
  "process_rows u n rows = (rs, n') \<Longrightarrow> r \<in> set rs \<Longrightarrow>
   \<exists>c m. (c, m, Some (similarity r)) \<in> set rows"
proof (induction rows arbitrary: n rs n')
  case Nil
  then show ?case by simp
next
  case (Cons row rows)
  obtain res n1 where pr: "process_row u n row = (res, n1)" by (cases "process_row u n row")
  obtain ds n2 where t: "process_rows u n1 rows = (ds, n2)" by (cases "process_rows u n1 rows")
  show ?case
  proof (cases res)
    case (Inl err)
    then have "rs = ds" using Cons.prems(1) pr t by simp
    then show ?thesis using Cons.IH[OF t] Cons.prems(2) by auto
  next
    case (Inr d)
    then have rs: "rs = d # ds" using Cons.prems(1) pr t by simp
    obtain c m s where row: "row = (c, m, s)" by (cases row)
    have "s = Some (similarity d)"
      using pr Inr unfolding row process_row_def
      by (auto simp: Let_def split: metadata_json.splits option.splits)
    then show ?thesis using rs Cons.IH[OF t] Cons.prems(2) row by auto
  qed
qed

lemma process_rows_sorted:
  assumes "sorted_wrt (\<lambda>a b. \<forall>x y. snd (snd a) = Some x \<longrightarrow> snd (snd b) = Some y \<longrightarrow> py_ge x y) rows"
    and "process_rows u n rows = (rs, n')"
  shows "sorted_wrt (\<lambda>a b. py_ge (similarity a) (similarity b)) rs"
  using assms
proof (induction rows arbitrary: n rs n')
  case Nil
  then show ?case by simp
next
  case (Cons row rows)
  obtain res n1 where pr: "process_row u n row = (res, n1)" by (cases "process_row u n row")
  obtain ds n2 where t: "process_rows u n1 rows = (ds, n2)" by (cases "process_rows u n1 rows")
  have sds: "sorted_wrt (\<lambda>a b. py_ge (similarity a) (similarity b)) ds"
    using Cons.IH[OF _ t] Cons.prems(1) by simp
  show ?case
  proof (cases res)
    case (Inl err)
    then have "rs = ds" using Cons.prems(2) pr t by simp
    then show ?thesis using sds by simp
  next
    case (Inr d)
    then have rs: "rs = d # ds" using Cons.prems(2) pr t by simp
    obtain c m s where row: "row = (c, m, s)" by (cases row)
    have s: "s = Some (similarity d)"
      using pr Inr unfolding row process_row_def
      by (auto simp: Let_def split: metadata_json.splits option.splits)
    have "\<forall>r\<in>set ds. py_ge (similarity d) (similarity r)"
    proof
      fix r assume "r \<in> set ds"
      then obtain c' m' where "(c', m', Some (similarity r)) \<in> set rows"
        using process_rows_mem[OF t] by blast
      then show "py_ge (similarity d) (similarity r)"
        using Cons.prems(1) row s by fastforce
    qed
    then show ?thesis using rs sds by simp
  qed
qed

lemma format_docs_mem:
  "format_docs u n sid si docs = (rs, n') \<Longrightarrow> r \<in> set rs \<Longrightarrow>
   \<exists>d p. d \<in> set docs \<and> r = format_doc u p sid si d"
proof (induction docs arbitrary: n rs n')
  case Nil
  then show ?case by simp
next
  case (Cons doc docs)
  obtain ds n1 where t: "format_docs u (n + 2) sid si docs = (ds, n1)"
    by (cases "format_docs u (n + 2) sid si docs")
  then have "rs = format_doc u n sid si doc # ds" using Cons.prems(1) by simp
  then show ?case using Cons.IH[OF t] Cons.prems(2) by auto
qed

lemma search_stores_mem:
  "search_stores u n q k cids tgs sts = (rs, n') \<Longrightarrow> r \<in> set rs \<Longrightarrow>
   \<exists>sid sd d p. (sid, sd) \<in> set sts
      \<and> d \<in> set (search_store (store sd) q k (build_filter_dict cids tgs))
      \<and> r = format_doc u p sid (info sd) d"
proof (induction sts arbitrary: n rs n')
  case Nil
  then show ?case by simp
next
  case (Cons st sts)
  obtain sid sd where st: "st = (sid, sd)" by (cases st)
  obtain ds n1 where f: "format_docs u n sid (info sd)
      (search_store (store sd) q k (build_filter_dict cids tgs)) = (ds, n1)"
    by (cases "format_docs u n sid (info sd) (search_store (store sd) q k (build_filter_dict cids tgs))")
  obtain ds' n2 where t: "search_stores u n1 q k cids tgs sts = (ds', n2)"
    by (cases "search_stores u n1 q k cids tgs sts")
  have "rs = ds @ ds'" using Cons.prems(1) st f t by (simp add: Let_def)
  then consider "r \<in> set ds" | "r \<in> set ds'" using Cons.prems(2) by auto
  then show ?case
  proof cases
    case 1
    then obtain d p where "d \<in> set (search_store (store sd) q k (build_filter_dict cids tgs))"
      "r = format_doc u p sid (info sd) d"
      using format_docs_mem[OF f] by blast
    then show ?thesis using st by (intro exI[of _ sid] exI[of _ sd] exI[of _ d] exI[of _ p]) simp
  next
    case 2
    then obtain sid' sd' d p where "(sid', sd') \<in> set sts"
      "d \<in> set (search_store (store sd') q k (build_filter_dict cids tgs))"
      "r = format_doc u p sid' (info sd') d"
      using Cons.IH[OF t] by blast
    then show ?thesis by (intro exI[of _ sid'] exI[of _ sd'] exI[of _ d] exI[of _ p]) simp
  qed
qed

lemma set_update_subset: "set (AList.update k v al) \<subseteq> insert (k, v) (set al)"
  by (induction al) auto

lemma set_select_stores: "set (select_stores vs ids acc) \<subseteq> set vs \<union> set acc"
proof (induction ids arbitrary: acc)
  case Nil
  then show ?case by simp
next
  case (Cons i ids)
  show ?case
  proof (cases "map_of vs i")
    case None
    then show ?thesis using Cons.IH[of acc] by simp
  next
    case (Some sd)
    then have "(i, sd) \<in> set vs" by (rule map_of_SomeD)
    then show ?thesis using Cons.IH[of "AList.update i sd acc"] Some set_update_subset[of i sd acc]
      by auto
  qed
qed

lemma set_stores_to_search: "set (stores_to_search e bids) \<subseteq> set (vector_stores e)"
  using set_select_stores[of "vector_stores e" "the bids" "[]"]
  by (auto simp: stores_to_search_def)

lemma similarity_format_doc:
  "similarity (format_doc u p sid si d) =
     (case doc_metadata d of None \<Rightarrow> Fin 0
      | Some md \<Rightarrow> (case m_similarity md of None \<Rightarrow> Fin 0 | Some s \<Rightarrow> s))"
  by (simp add: format_doc_def Let_def empty_meta_def split: option.splits)

lemma search_paths:
  "(\<exists>rs n'. direct_pgvector_search e n query k cids tgs = (Inr rs, n') \<and> rs \<noteq> []
        \<and> search e n query k bids cids tgs = (Inr rs, n'))
   \<or> (\<exists>n1. search e n query k bids cids tgs = fallback_search e n1 query k bids cids tgs)"
  by (auto simp: search_def split: prod.splits sum.splits)

lemma fallback_search_eq:
  "\<exists>n'. fallback_search e n1 query k bids cids tgs =
     (Inr (py_slice_to k (sort_desc (fst (search_stores (uuid4 e) n1 query k cids tgs
        (stores_to_search e bids))))), n')"
  by (auto simp: fallback_search_def Let_def py_slice_to_def split: prod.splits)

lemma search_store_mem:
  "d \<in> set (search_store st q k fd) \<Longrightarrow> \<exists>docs. st q k fd = Inr docs \<and> d \<in> set docs"
  by (cases "st q k fd") (auto simp: search_store_def)




subsection \<open>A store that raises\<close>







subsection \<open>Two calls from different generator states\<close>

lemma similarity_without_ids: "similarity (without_ids r) = similarity r"
  by (simp add: without_ids_def)

lemma insert_desc_map:
  assumes "\<And>x. similarity (f x) = similarity x"
  shows "insert_desc (f x) (map f ys) = map f (insert_desc x ys)"
  by (induction ys) (simp_all add: assms)

lemma sort_desc_map:
  assumes "\<And>x. similarity (f x) = similarity x"
  shows "sort_desc (map f xs) = map f (sort_desc xs)"
  by (induction xs) (simp_all add: insert_desc_map[OF assms])

lemma py_slice_to_map: "py_slice_to k (map f xs) = map f (py_slice_to k xs)"
  by (simp add: py_slice_to_def take_map)

lemma process_rows_modulo:
  assumes "\<forall>row\<in>set rows. \<forall>a b. map_sum id f (fst (process_row u a row))
              = map_sum id f (fst (process_row u b row))"
  shows "map f (fst (process_rows u n rows)) = map f (fst (process_rows u m rows))"
  using assms
proof (induction rows arbitrary: n m)
  case Nil
  then show ?case by simp
next
  case (Cons row rows)
  obtain r1 n1 where a: "process_row u n row = (r1, n1)" by (cases "process_row u n row")
  obtain r2 m1 where b: "process_row u m row = (r2, m1)" by (cases "process_row u m row")
  have hd: "map_sum id f r1 = map_sum id f r2" using Cons.prems a b
    by (metis fst_conv list.set_intros(1))
  have tl: "map f (fst (process_rows u n1 rows)) = map f (fst (process_rows u m1 rows))"
    using Cons.IH[of n1 m1] Cons.prems by simp
  show ?case
  proof (cases r1)
    case (Inl e1)
    then obtain e2 where "r2 = Inl e2" using hd by (cases r2) auto
    then show ?thesis using Inl a b tl by simp
  next
    case (Inr d1)
    then obtain d2 where "r2 = Inr d2" "f d1 = f d2" using hd by (cases r2) auto
    then show ?thesis using Inr a b tl by (auto split: prod.splits)
  qed
qed

lemma format_docs_modulo:
  assumes "\<forall>d\<in>set docs. \<forall>a b. f (format_doc u a sid si d) = f (format_doc u b sid si d)"
  shows "map f (fst (format_docs u n sid si docs)) = map f (fst (format_docs u m sid si docs))"
  using assms
proof (induction docs arbitrary: n m)
  case Nil
  then show ?case by simp
next
  case (Cons d docs)
  have "map f (fst (format_docs u (n + 2) sid si docs)) = map f (fst (format_docs u (m + 2) sid si docs))"
    using Cons.IH[of "n + 2" "m + 2"] Cons.prems by simp
  moreover have "f (format_doc u n sid si d) = f (format_doc u m sid si d)"
    using Cons.prems by simp
  ultimately show ?case by (auto split: prod.splits)
qed

lemma search_stores_modulo:
  assumes "\<forall>(sid, sd)\<in>set sts. \<forall>d\<in>set (search_store (store sd) q k (build_filter_dict cids tgs)).
             \<forall>a b. f (format_doc u a sid (info sd) d) = f (format_doc u b sid (info sd) d)"
  shows "map f (fst (search_stores u n q k cids tgs sts)) = map f (fst (search_stores u m q k cids tgs sts))"
  using assms
proof (induction sts arbitrary: n m)
  case Nil
  then show ?case by simp
next
  case (Cons st sts)
  obtain sid sd where st: "st = (sid, sd)" by (cases st)
  let ?docs = "search_store (store sd) q k (build_filter_dict cids tgs)"
  obtain ds1 n1 where a: "format_docs u n sid (info sd) ?docs = (ds1, n1)"
    by (cases "format_docs u n sid (info sd) ?docs")
  obtain ds2 m1 where b: "format_docs u m sid (info sd) ?docs = (ds2, m1)"
    by (cases "format_docs u m sid (info sd) ?docs")
  have "map f ds1 = map f ds2"
    using format_docs_modulo[of ?docs f u sid "info sd" n m] Cons.prems st a b by auto
  moreover have "map f (fst (search_stores u n1 q k cids tgs sts))
       = map f (fst (search_stores u m1 q k cids tgs sts))"
    using Cons.IH[of n1 m1] Cons.prems by simp
  ultimately show ?case using st a b by (auto simp: Let_def split: prod.splits)
qed

lemma fst_fallback_search:
  "fst (fallback_search e n1 query k bids cids tgs) =
     Inr (py_slice_to k (sort_desc (fst (search_stores (uuid4 e) n1 query k cids tgs
        (stores_to_search e bids)))))"
  using fallback_search_eq[of e n1 query k bids cids tgs] by auto

lemma fst_direct:
  "fst (direct_pgvector_search e n query k cids tgs) =
     (case embed_query e query of Inl err \<Rightarrow> Inl err
      | Inr emb \<Rightarrow> (case get_db_connection e of Inl err \<Rightarrow> Inl err
         | Inr execute \<Rightarrow> (case execute (build_sql (PGVECTOR_TABLE_NAME e) emb k cids tgs) of
              Inl err \<Rightarrow> Inl err
            | Inr rows \<Rightarrow> Inr (fst (process_rows (uuid4 e) n rows)))))"
  by (simp add: direct_pgvector_search_def split: sum.splits prod.splits)

lemma fst_search:
  "fst (search e n query k bids cids tgs) =
     (if use_direct e bids
      then (case fst (direct_pgvector_search e n query k cids tgs) of
              Inr rs \<Rightarrow> if rs \<noteq> [] then Inr rs
                        else fst (fallback_search e (snd (direct_pgvector_search e n query k cids tgs))
                                    query k bids cids tgs)
            | Inl err \<Rightarrow> fst (fallback_search e (snd (direct_pgvector_search e n query k cids tgs))
                                    query k bids cids tgs))
      else fst (fallback_search e n query k bids cids tgs))"
  by (simp add: search_def split: sum.splits prod.splits)

lemma search_modulo:
  fixes f :: "DocumentResponse \<Rightarrow> DocumentResponse"
  assumes sim: "\<And>x. similarity (f x) = similarity x"
    and rows: "\<forall>execute sql rows row a b. get_db_connection e = Inr execute \<longrightarrow> execute sql = Inr rows
         \<longrightarrow> row \<in> set rows
         \<longrightarrow> map_sum id f (fst (process_row (uuid4 e) a row)) = map_sum id f (fst (process_row (uuid4 e) b row))"
    and docs: "\<forall>sid sd docs d a b. (sid, sd) \<in> set (vector_stores e)
         \<longrightarrow> store sd query k (build_filter_dict cids tgs) = Inr docs \<longrightarrow> d \<in> set docs
         \<longrightarrow> f (format_doc (uuid4 e) a sid (info sd) d) = f (format_doc (uuid4 e) b sid (info sd) d)"
  shows "map_sum id (map f) (fst (search e n query k bids cids tgs))
       = map_sum id (map f) (fst (search e m query k bids cids tgs))"
proof -
  have fb: "map_sum id (map f) (fst (fallback_search e a query k bids cids tgs))
          = map_sum id (map f) (fst (fallback_search e b query k bids cids tgs))" for a b
  proof -
    have "\<forall>(sid, sd)\<in>set (stores_to_search e bids).
            \<forall>d\<in>set (search_store (store sd) query k (build_filter_dict cids tgs)).
             \<forall>a b. f (format_doc (uuid4 e) a sid (info sd) d) = f (format_doc (uuid4 e) b sid (info sd) d)"
      using docs set_stores_to_search[of e bids] search_store_mem by (auto; blast)
    then have "map f (fst (search_stores (uuid4 e) a query k cids tgs (stores_to_search e bids)))
        = map f (fst (search_stores (uuid4 e) b query k cids tgs (stores_to_search e bids)))"
      by (rule search_stores_modulo)
    then show ?thesis
      by (simp add: fst_fallback_search sort_desc_map[OF sim, symmetric] py_slice_to_map[symmetric])
  qed
  have dr: "map_sum id (map f) (fst (direct_pgvector_search e n query k cids tgs))
          = map_sum id (map f) (fst (direct_pgvector_search e m query k cids tgs))"
  proof (cases "embed_query e query")
    case (Inl err)
    then show ?thesis by (simp add: fst_direct)
  next
    case emb: (Inr emb)
    show ?thesis
    proof (cases "get_db_connection e")
      case (Inl err)
      then show ?thesis using emb by (simp add: fst_direct)
    next
      case ex: (Inr execute)
      show ?thesis
      proof (cases "execute (build_sql (PGVECTOR_TABLE_NAME e) emb k cids tgs)")
        case (Inl err)
        then show ?thesis using emb ex by (simp add: fst_direct)
      next
        case (Inr rws)
        have "\<forall>row\<in>set rws. \<forall>a b. map_sum id f (fst (process_row (uuid4 e) a row))
              = map_sum id f (fst (process_row (uuid4 e) b row))"
          using rows ex Inr by blast
        then have "map f (fst (process_rows (uuid4 e) n rws)) = map f (fst (process_rows (uuid4 e) m rws))"
          by (rule process_rows_modulo)
        then show ?thesis using emb ex Inr by (simp add: fst_direct)
      qed
    qed
  qed
  show ?thesis
  proof (cases "use_direct e bids")
    case False
    then show ?thesis using fb by (simp add: fst_search)
  next
    case True
    show ?thesis
    proof (cases "fst (direct_pgvector_search e n query k cids tgs)")
      case (Inl err)
      then have "fst (direct_pgvector_search e m query k cids tgs) = Inl err"
        using dr by (cases "fst (direct_pgvector_search e m query k cids tgs)") auto
      then show ?thesis using True Inl fb by (simp add: fst_search)
    next
      case (Inr rs)
      then obtain rs' where r': "fst (direct_pgvector_search e m query k cids tgs) = Inr rs'"
        "map f rs = map f rs'"
        using dr by (cases "fst (direct_pgvector_search e m query k cids tgs)") auto
      then have "rs = [] \<longleftrightarrow> rs' = []" by (metis map_is_Nil_conv)
      then show ?thesis using True Inr r' fb by (simp add: fst_search)
    qed
  qed
qed

lemma process_row_without_ids:
  "map_sum id without_ids (fst (process_row u a row)) = map_sum id without_ids (fst (process_row u b row))"
  by (cases row) (simp add: process_row_def without_ids_def Let_def
        split: metadata_json.splits option.splits)

lemma format_doc_without_ids:
  "without_ids (format_doc u a sid si d) = without_ids (format_doc u b sid si d)"
  by (simp add: format_doc_def without_ids_def Let_def)

lemma process_row_with_ids:
  assumes "snd (snd row) = None \<or> fst (snd row) = MetaMalformed
           \<or> (\<exists>md. fst (snd row) = MetaDict md \<and> m_documentId md \<noteq> None \<and> m_chunkId md \<noteq> None)"
  shows "fst (process_row u a row) = fst (process_row u b row)"
  using assms
  by (cases row) (auto simp: process_row_def Let_def split: metadata_json.splits option.splits)

lemma format_doc_with_ids:
  assumes "\<exists>md. doc_metadata d = Some md \<and> m_documentId md \<noteq> None \<and> m_chunkId md \<noteq> None"
  shows "format_doc u a sid si d = format_doc u b sid si d"
  using assms by (auto simp: format_doc_def Let_def)

subsection \<open>Which calls of \<open>uuid4\<close> a match uses\<close>

lemma draws_Nil: "draws lo hi []"
  by (simp add: draws_def)

lemma draws_widen:
  assumes "draws lo' hi' prs" "lo \<le> lo'" "hi' \<le> hi" "even (lo' - lo)"
  shows "draws lo hi prs"
proof -
  have "lo \<le> p \<and> p + 2 \<le> hi \<and> even (p - lo)" if "(p, r) \<in> set prs" for p r
  proof -
    have "lo' \<le> p \<and> p + 2 \<le> hi' \<and> even (p - lo')" using assms(1) that unfolding draws_def by blast
    then show ?thesis using assms(2,3,4) by auto
  qed
  then show ?thesis using assms(1) unfolding draws_def by blast
qed

lemma draws_Cons:
  assumes "draws (lo + 2) hi prs" "lo + 2 \<le> hi"
  shows "draws lo hi ((lo, r) # prs)"
proof -
  have b: "lo + 2 \<le> p \<and> p + 2 \<le> hi \<and> even (p - (lo + 2))" if "(p, r') \<in> set prs" for p r'
    using assms(1) that unfolding draws_def by blast
  have "lo \<notin> set (map fst prs)" using b by fastforce
  moreover have "lo \<le> p \<and> p + 2 \<le> hi \<and> even (p - lo)" if "(p, r') \<in> set ((lo, r) # prs)" for p r'
    using that b[of p r'] assms(2) by auto
  ultimately show ?thesis using assms(1) unfolding draws_def by auto
qed

lemma draws_append:
  assumes "draws lo mid prs" "draws mid hi prs'" "lo \<le> mid" "mid \<le> hi" "even (mid - lo)"
  shows "draws lo hi (prs @ prs')"
proof -
  have a: "lo \<le> p \<and> p + 2 \<le> mid \<and> even (p - lo)" if "(p, r) \<in> set prs" for p r
    using assms(1) that unfolding draws_def by blast
  have b: "mid \<le> p \<and> p + 2 \<le> hi \<and> even (p - mid)" if "(p, r) \<in> set prs'" for p r
    using assms(2) that unfolding draws_def by blast
  have "set (map fst prs) \<inter> set (map fst prs') = {}" using a b by fastforce
  moreover have "lo \<le> p \<and> p + 2 \<le> hi \<and> even (p - lo)" if "(p, r) \<in> set (prs @ prs')" for p r
    using that a[of p r] b[of p r] assms(3,4,5) by auto
  ultimately show ?thesis using assms(1,2) unfolding draws_def by auto
qed

lemma process_row_counter:
  "process_row u n row = (res, n1) \<Longrightarrow> (n1 = n \<and> (\<exists>err. res = Inl err)) \<or> n1 = n + 2"
  by (cases row) (auto simp: process_row_def Let_def split: metadata_json.splits option.splits)

lemma process_rows_draws:
  "process_rows u n rows = (rs, n') \<Longrightarrow>
   n \<le> n' \<and> even (n' - n) \<and>
   (\<exists>prs. map snd prs = rs \<and> draws n n' prs
      \<and> (\<forall>(p, r)\<in>set prs. \<exists>row\<in>set rows. process_row u p row = (Inr r, p + 2)))"
proof (induction rows arbitrary: n rs n')
  case Nil
  then show ?case by (auto simp: draws_Nil)
next
  case (Cons row rows)
  obtain res n1 where pr: "process_row u n row = (res, n1)" by (cases "process_row u n row")
  obtain ds n2 where t: "process_rows u n1 rows = (ds, n2)" by (cases "process_rows u n1 rows")
  from Cons.IH[OF t] obtain prs where ih: "n1 \<le> n2" "even (n2 - n1)" "map snd prs = ds"
     "draws n1 n2 prs" "\<forall>(p, r)\<in>set prs. \<exists>row\<in>set rows. process_row u p row = (Inr r, p + 2)"
    by blast
  have cnt: "(n1 = n \<and> (\<exists>err. res = Inl err)) \<or> n1 = n + 2"
    using process_row_counter[OF pr] .
  show ?case
  proof (cases res)
    case (Inl err)
    then have eq: "rs = ds" "n' = n2" using Cons.prems pr t by simp_all
    have "draws n n2 prs" using ih(4) cnt by (auto intro: draws_widen)
    moreover have "n \<le> n2" "even (n2 - n)" using ih(1,2) cnt by auto
    moreover have "\<forall>(p, r)\<in>set prs. \<exists>row'\<in>set (row # rows). process_row u p row' = (Inr r, p + 2)"
      using ih(5) by fastforce
    ultimately show ?thesis using eq ih(3) by blast
  next
    case (Inr d)
    then have eq: "rs = d # ds" "n' = n2" using Cons.prems pr t by simp_all
    have n1: "n1 = n + 2" using cnt Inr by auto
    have "draws n n2 ((n, d) # prs)" using ih(4) ih(1) n1 by (auto intro: draws_Cons)
    moreover have "n \<le> n2" "even (n2 - n)" using ih(1,2) n1 by auto
    moreover have "\<forall>(p, r)\<in>set ((n, d) # prs). \<exists>row'\<in>set (row # rows). process_row u p row' = (Inr r, p + 2)"
      using ih(5) pr Inr n1 by fastforce
    moreover have "map snd ((n, d) # prs) = rs" using eq ih(3) by simp
    ultimately show ?thesis using eq by blast
  qed
qed

lemma format_docs_draws:
  "format_docs u n sid si docs = (rs, n') \<Longrightarrow>
   n \<le> n' \<and> even (n' - n) \<and>
   (\<exists>prs. map snd prs = rs \<and> draws n n' prs
      \<and> (\<forall>(p, r)\<in>set prs. \<exists>d\<in>set docs. r = format_doc u p sid si d))"
proof (induction docs arbitrary: n rs n')
  case Nil
  then show ?case by (auto simp: draws_Nil)
next
  case (Cons doc docs)
  obtain ds n2 where t: "format_docs u (n + 2) sid si docs = (ds, n2)"
    by (cases "format_docs u (n + 2) sid si docs")
  from Cons.IH[OF t] obtain prs where ih: "n + 2 \<le> n2" "even (n2 - (n + 2))" "map snd prs = ds"
     "draws (n + 2) n2 prs" "\<forall>(p, r)\<in>set prs. \<exists>d\<in>set docs. r = format_doc u p sid si d"
    by blast
  have eq: "rs = format_doc u n sid si doc # ds" "n' = n2" using Cons.prems t by simp_all
  have "draws n n2 ((n, format_doc u n sid si doc) # prs)" using ih(4) ih(1) by (auto intro: draws_Cons)
  moreover have "n \<le> n2" "even (n2 - n)" using ih(1,2) by auto
  moreover have "\<forall>(p, r)\<in>set ((n, format_doc u n sid si doc) # prs).
       \<exists>d\<in>set (doc # docs). r = format_doc u p sid si d"
    using ih(5) by fastforce
  moreover have "map snd ((n, format_doc u n sid si doc) # prs) = rs" using eq ih(3) by simp
  ultimately show ?case using eq by blast
qed

lemma search_stores_draws:
  "search_stores u n q k cids tgs sts = (rs, n') \<Longrightarrow>
   n \<le> n' \<and> even (n' - n) \<and>
   (\<exists>prs. map snd prs = rs \<and> draws n n' prs
      \<and> (\<forall>(p, r)\<in>set prs. \<exists>(sid, sd)\<in>set sts.
            \<exists>d\<in>set (search_store (store sd) q k (build_filter_dict cids tgs)).
              r = format_doc u p sid (info sd) d))"
proof (induction sts arbitrary: n rs n')
  case Nil
  then show ?case by (auto simp: draws_Nil)
next
  case (Cons st sts)
  obtain sid sd where st: "st = (sid, sd)" by (cases st)
  let ?docs = "search_store (store sd) q k (build_filter_dict cids tgs)"
  obtain ds1 n1 where a: "format_docs u n sid (info sd) ?docs = (ds1, n1)"
    by (cases "format_docs u n sid (info sd) ?docs")
  obtain ds2 n2 where t: "search_stores u n1 q k cids tgs sts = (ds2, n2)"
    by (cases "search_stores u n1 q k cids tgs sts")
  from format_docs_draws[OF a] obtain prs1 where h1: "n \<le> n1" "even (n1 - n)" "map snd prs1 = ds1"
     "draws n n1 prs1" "\<forall>(p, r)\<in>set prs1. \<exists>d\<in>set ?docs. r = format_doc u p sid (info sd) d"
    by blast
  from Cons.IH[OF t] obtain prs2 where h2: "n1 \<le> n2" "even (n2 - n1)" "map snd prs2 = ds2"
     "draws n1 n2 prs2"
     "\<forall>(p, r)\<in>set prs2. \<exists>(sid, sd)\<in>set sts.
            \<exists>d\<in>set (search_store (store sd) q k (build_filter_dict cids tgs)).
              r = format_doc u p sid (info sd) d"
    by blast
  have eq: "rs = ds1 @ ds2" "n' = n2" using Cons.prems st a t by (simp_all add: Let_def)
  have "draws n n2 (prs1 @ prs2)" using h1 h2 by (auto intro: draws_append)
  moreover have "n \<le> n2" "even (n2 - n)" using h1(1,2) h2(1,2) by auto
  moreover have "map snd (prs1 @ prs2) = rs" using eq h1(3) h2(3) by simp
  moreover have "\<forall>(p, r)\<in>set (prs1 @ prs2). \<exists>(sid, sd)\<in>set (st # sts).
            \<exists>d\<in>set (search_store (store sd) q k (build_filter_dict cids tgs)).
              r = format_doc u p sid (info sd) d"
    using h1(5) h2(5) st by fastforce
  ultimately show ?case using eq by blast
qed

lemma insert_desc_pairs:
  "\<exists>prs'. map snd prs' = insert_desc (snd x) (map snd prs) \<and> mset prs' = add_mset x (mset prs)"
proof (induction prs)
  case Nil
  show ?case by (rule exI[of _ "[x]"]) simp
next
  case (Cons y prs)
  then obtain prs' where ih: "map snd prs' = insert_desc (snd x) (map snd prs)"
    "mset prs' = add_mset x (mset prs)" by blast
  show ?case
  proof (cases "py_lt (similarity (snd x)) (similarity (snd y))")
    case True
    then show ?thesis using ih by (intro exI[of _ "y # prs'"]) simp
  next
    case False
    then show ?thesis by (intro exI[of _ "x # y # prs"]) simp
  qed
qed

lemma sort_desc_pairs:
  "\<exists>prs'. map snd prs' = sort_desc (map snd prs) \<and> mset prs' = mset prs"
proof (induction prs)
  case Nil
  show ?case by simp
next
  case (Cons x prs)
  then obtain prs1 where ih: "map snd prs1 = sort_desc (map snd prs)" "mset prs1 = mset prs"
    by blast
  obtain prs' where "map snd prs' = insert_desc (snd x) (map snd prs1)"
     "mset prs' = add_mset x (mset prs1)"
    using insert_desc_pairs by blast
  then show ?case using ih by (intro exI[of _ prs']) simp
qed

lemma draws_mset:
  assumes "mset prs' = mset prs" "draws lo hi prs"
  shows "draws lo hi prs'"
proof -
  have "mset (map fst prs') = mset (map fst prs)" using assms(1) by (metis mset_map)
  then have "distinct (map fst prs') = distinct (map fst prs)"
    by (rule mset_eq_imp_distinct_iff)
  moreover have "set prs' = set prs" using assms(1) by (rule mset_eq_setD)
  ultimately show ?thesis using assms(2) unfolding draws_def by simp
qed

lemma draws_take:
  assumes "draws lo hi prs"
  shows "draws lo hi (take m prs)"
proof -
  have "distinct (map fst prs)" using assms unfolding draws_def by blast
  then have "distinct (map fst (take m prs))" by (metis distinct_take take_map)
  moreover have "set (take m prs) \<subseteq> set prs" by (rule set_take_subset)
  ultimately show ?thesis using assms unfolding draws_def by blast
qed

lemma direct_counter:
  assumes "direct_pgvector_search e n query k cids tgs = (res, n1)"
  shows "n \<le> n1 \<and> even (n1 - n)"
proof (cases res)
  case (Inl err)
  have "n1 = n \<or> (\<exists>rs. res = Inr rs)"
    using assms by (auto simp: direct_pgvector_search_def split: sum.splits prod.splits)
  then show ?thesis using Inl by auto
next
  case (Inr rs)
  then obtain rows where "process_rows (uuid4 e) n rows = (rs, n1)"
    using direct_rows assms by blast
  then show ?thesis using process_rows_draws by blast
qed

lemma search_paths_counter:
  "(\<exists>rs n'. direct_pgvector_search e n query k cids tgs = (Inr rs, n')
        \<and> search e n query k bids cids tgs = (Inr rs, n'))
   \<or> (\<exists>n1. n \<le> n1 \<and> even (n1 - n)
        \<and> search e n query k bids cids tgs = fallback_search e n1 query k bids cids tgs)"
proof (cases "use_direct e bids")
  case False
  then have "search e n query k bids cids tgs = fallback_search e n query k bids cids tgs"
    by (simp add: search_def)
  then show ?thesis by (intro disjI2 exI[of _ n]) simp
next
  case True
  obtain res n1 where d: "direct_pgvector_search e n query k cids tgs = (res, n1)"
    by (cases "direct_pgvector_search e n query k cids tgs")
  have c: "n \<le> n1 \<and> even (n1 - n)" using direct_counter[OF d] .
  show ?thesis
  proof (cases "\<exists>rs. res = Inr rs \<and> rs \<noteq> []")
    case True
    then show ?thesis using d \<open>use_direct e bids\<close> by (auto simp: search_def)
  next
    case False
    then have "search e n query k bids cids tgs = fallback_search e n1 query k bids cids tgs"
      using d True by (cases res) (auto simp: search_def)
    then show ?thesis using c by blast
  qed
qed

lemma process_row_ids:
  assumes "process_row u p row = (Inr r, p2)"
  shows "\<exists>c mj s. row = (c, mj, Some s) \<and> content r = c
     \<and> documentId (metadata r)
         = (case m_documentId (case mj of MetaDict d \<Rightarrow> d | _ \<Rightarrow> empty_meta) of
              Some v \<Rightarrow> v | None \<Rightarrow> u p)
     \<and> chunkId (metadata r)
         = (case m_chunkId (case mj of MetaDict d \<Rightarrow> d | _ \<Rightarrow> empty_meta) of
              Some v \<Rightarrow> v | None \<Rightarrow> u (p + 1))"
  using assms
  by (cases row)
     (auto simp: process_row_def Let_def empty_meta_def split: metadata_json.splits option.splits)

lemma format_doc_ids:
  "content (format_doc u p sid si d) = page_content d
   \<and> documentId (metadata (format_doc u p sid si d))
       = (case m_documentId (case doc_metadata d of Some x \<Rightarrow> x | None \<Rightarrow> empty_meta) of
            Some v \<Rightarrow> v | None \<Rightarrow> u p)
   \<and> chunkId (metadata (format_doc u p sid si d))
       = (case m_chunkId (case doc_metadata d of Some x \<Rightarrow> x | None \<Rightarrow> empty_meta) of
            Some v \<Rightarrow> v | None \<Rightarrow> u (p + 1))"
  by (simp add: format_doc_def Let_def)

lemma fallback_draws:
  assumes "fallback_search e n1 query k bids cids tgs = (Inr rs, n')"
  shows "n1 \<le> n' \<and> (\<exists>prs. map snd prs = rs \<and> draws n1 n' prs
      \<and> (\<forall>(p, r)\<in>set prs. \<exists>(sid, sd)\<in>set (stores_to_search e bids).
            \<exists>d\<in>set (search_store (store sd) query k (build_filter_dict cids tgs)).
              r = format_doc (uuid4 e) p sid (info sd) d))"
proof (cases "stores_to_search e bids = []")
  case True
  then have "rs = []" "n' = n1" using assms by (simp_all add: fallback_search_def)
  then show ?thesis by (auto simp: draws_Nil intro: exI[of _ "[]"])
next
  case False
  obtain merged n2 where ss: "search_stores (uuid4 e) n1 query k cids tgs (stores_to_search e bids)
      = (merged, n2)"
    by (cases "search_stores (uuid4 e) n1 query k cids tgs (stores_to_search e bids)")
  then have eq: "rs = py_slice_to k (sort_desc merged)" "n' = n2"
    using assms False by (simp_all add: fallback_search_def)
  from search_stores_draws[OF ss] obtain prs0 where h0: "n1 \<le> n2" "map snd prs0 = merged"
     "draws n1 n2 prs0"
     "\<forall>(p, r)\<in>set prs0. \<exists>(sid, sd)\<in>set (stores_to_search e bids).
            \<exists>d\<in>set (search_store (store sd) query k (build_filter_dict cids tgs)).
              r = format_doc (uuid4 e) p sid (info sd) d"
    by blast
  obtain prs1 where h1: "map snd prs1 = sort_desc (map snd prs0)" "mset prs1 = mset prs0"
    using sort_desc_pairs by blast
  have "\<exists>m. py_slice_to k (sort_desc merged) = take m (sort_desc merged)"
    by (cases "0 \<le> k") (auto simp: py_slice_to_def)
  then obtain m where m: "py_slice_to k (sort_desc merged) = take m (sort_desc merged)" ..
  let ?prs = "take m prs1"
  have "map snd ?prs = take m (map snd prs1)" by (rule take_map[symmetric])
  then have "map snd ?prs = rs" using eq(1) m h1(1) h0(2) by simp
  moreover have "draws n1 n' ?prs"
    using draws_take[OF draws_mset[OF h1(2) h0(3)]] eq(2) by simp
  moreover have "set ?prs \<subseteq> set prs0"
    using set_take_subset[of m prs1] mset_eq_setD[OF h1(2)] by simp
  then have "\<forall>(p, r)\<in>set ?prs. \<exists>(sid, sd)\<in>set (stores_to_search e bids).
            \<exists>d\<in>set (search_store (store sd) query k (build_filter_dict cids tgs)).
              r = format_doc (uuid4 e) p sid (info sd) d"
    using h0(4) by blast
  ultimately show ?thesis using h0(1) eq(2) by blast
qed

section \<open>The claims\<close>

subsection \<open>C1: the fast path short-circuits the merge\<close>

text \<open>
  C1. When pgvector is enabled, \<open>backend_ids\<close> is absent or contains \<open>pgvector-1\<close>, and
  \<open>_direct_pgvector_search\<close> returns a non-empty list, \<open>search\<close> returns exactly that
  list, whatever stores are registered in \<open>vector_stores\<close>: no other backend is asked
  and nothing is merged.
\<close>

theorem search_fast_path_short_circuit:
  assumes "ENABLE_PGVECTOR e"
    and "backend_ids = None \<or> (\<exists>ids. backend_ids = Some ids \<and> ''pgvector-1'' \<in> set ids)"
    and "direct_pgvector_search e n query k collection_ids tgs = (Inr direct_results, n')"
    and "direct_results \<noteq> []"
  shows "search (e\<lparr>vector_stores := vs\<rparr>) n query k backend_ids collection_ids tgs
         = (Inr direct_results, n')"
proof -
  have "use_direct (e\<lparr>vector_stores := vs\<rparr>) backend_ids"
    using assms(1,2) by (auto simp: use_direct_def)
  then show ?thesis
    using assms(3,4) by (simp add: search_def direct_ignores_vector_stores)
qed

text \<open>The scenario of two rows with similarity 0.91 and 0.77, with a Pinecone store registered.\<close>

theorem search_fast_path_short_circuit_witness:
  "search ((example_env True apollo_rows [])
              \<lparr>vector_stores := [(''pinecone-1'', pinecone_store (Inr [plain_doc ''gamma'' None]))]\<rparr>)
      0 ''apollo guidance'' 2 None None None = (Inr apollo_matches, 4)"
  using search_fast_path_short_circuit[of "example_env True apollo_rows []" None 0
      "''apollo guidance''" 2 None None apollo_matches 4
      "[(''pinecone-1'', pinecone_store (Inr [plain_doc ''gamma'' None]))]"]
  by (simp add: example_defs direct_pgvector_search_def process_row_def)

subsection \<open>C2: the length of the result\<close>

lemma search_length_bound_aux:
  assumes "0 \<le> k"
    and "\<forall>execute emb rows. get_db_connection e = Inr execute \<longrightarrow> embed_query e query = Inr emb
           \<longrightarrow> execute (build_sql (PGVECTOR_TABLE_NAME e) emb k cids tgs) = Inr rows
           \<longrightarrow> int (length rows) \<le> k"
  shows "\<exists>rs n'. search e n query k bids cids tgs = (Inr rs, n') \<and> int (length rs) \<le> k"
proof (cases "use_direct e bids \<and> (\<exists>rs n'. direct_pgvector_search e n query k cids tgs = (Inr rs, n') \<and> rs \<noteq> [])")
  case True
  then obtain rs n' where d: "direct_pgvector_search e n query k cids tgs = (Inr rs, n')" by blast
  from direct_rows[OF d] obtain execute emb rows where
    h: "get_db_connection e = Inr execute" "embed_query e query = Inr emb"
       "execute (build_sql (PGVECTOR_TABLE_NAME e) emb k cids tgs) = Inr rows"
       "process_rows (uuid4 e) n rows = (rs, n')" by blast
  have "int (length rows) \<le> k" using assms(2) h by blast
  moreover have "length rs \<le> length rows" using length_process_rows[OF h(4)] .
  ultimately have "int (length rs) \<le> k" by linarith
  moreover have "search e n query k bids cids tgs = (Inr rs, n')"
    using True d by (simp add: search_cases)
  ultimately show ?thesis by blast
next
  case False
  then have s: "search e n query k bids cids tgs =
     fallback_search e (if use_direct e bids then snd (direct_pgvector_search e n query k cids tgs) else n)
             query k bids cids tgs"
    by (simp only: search_cases if_False)
  obtain rs n' where f: "fallback_search e (if use_direct e bids then snd (direct_pgvector_search e n query k cids tgs) else n)
             query k bids cids tgs = (Inr rs, n')"
    using fallback_search_returns by blast
  then show ?thesis using s fallback_length[OF assms(1) f] by simp
qed

text \<open>
  C2, as amended. \<open>search\<close> never raises, for any \<open>k\<close>. For \<open>k \<ge> 0\<close>, against a
  database that returns at most \<open>k\<close> rows for the query ending in \<open>LIMIT k\<close>, the
  returned list has at most \<open>k\<close> elements; for \<open>k = 0\<close> it is therefore empty. The
  generic path bounds its own result with \<open>results[:k]\<close>; the fast path returns what the
  database returned.
\<close>

theorem search_length_bound:
  "\<exists>rs n'. search e n query k bids cids tgs = (Inr rs, n')
     \<and> (0 \<le> k \<longrightarrow>
          (\<forall>execute emb rows. get_db_connection e = Inr execute \<longrightarrow> embed_query e query = Inr emb
             \<longrightarrow> execute (build_sql (PGVECTOR_TABLE_NAME e) emb k cids tgs) = Inr rows
             \<longrightarrow> int (length rows) \<le> k)
          \<longrightarrow> int (length rs) \<le> k)"
proof -
  obtain rs n' where s: "search e n query k bids cids tgs = (Inr rs, n')"
    using search_returns by blast
  have "int (length rs) \<le> k"
    if "0 \<le> k"
      and "\<forall>execute emb rows. get_db_connection e = Inr execute \<longrightarrow> embed_query e query = Inr emb
             \<longrightarrow> execute (build_sql (PGVECTOR_TABLE_NAME e) emb k cids tgs) = Inr rows
             \<longrightarrow> int (length rows) \<le> k"
    using search_length_bound_aux[OF that, of n bids] s by auto
  then show ?thesis using s by blast
qed

theorem search_length_bound_witness:
  "\<exists>rs n'. search (example_env True apollo_rows []) 0 ''apollo guidance'' 2 None None None
      = (Inr rs, n') \<and> int (length rs) \<le> 2"
  using search_length_bound[of "example_env True apollo_rows []" 0 "''apollo guidance''" 2 None None None]
  by (simp add: example_env_def apollo_rows_def)

text \<open>
  C2 as stated fails for a negative \<open>k\<close>: with \<open>k = -1\<close> and a store that returns two
  documents, \<open>results[:-1]\<close> keeps the first of them, so the result is neither empty
  nor of length at most \<open>k\<close>.
\<close>

theorem search_length_bound_counterexample:
  "map_sum id (map content) (fst (search (example_env False []
       [(''pinecone-1'', pinecone_store (Inr [plain_doc ''alpha'' None, plain_doc ''beta'' None]))])
       0 ''apollo guidance'' (- 1) None None None)) = Inr [''alpha'']
   \<and> \<not> int (length [''alpha'']) \<le> - 1"
  by (simp add: example_defs search_defs Let_def)

subsection \<open>C3: the range of the similarity\<close>




subsection \<open>C4: the order of the result\<close>

text \<open>
  C4, as amended. Provided that the database returns the rows of the fast path in
  descending order of similarity, as the query's \<open>ORDER BY similarity DESC\<close> asks, and
  that no store delivers a NaN score: the list returned by \<open>search\<close> is in descending
  order of similarity. It is either the list of the fast path, or \<open>results[:k]\<close> of the
  stably sorted concatenation of the stores' matches: the sorted list is a permutation of
  the concatenation in which the matches of equal similarity keep the order they had
  there, store after store and, within a store, in order of arrival; for \<open>k \<ge> 0\<close> the
  slice keeps its first \<open>k\<close> elements.
\<close>

theorem search_sorted_descending:
  assumes "\<forall>execute emb rows. get_db_connection e = Inr execute \<longrightarrow> embed_query e query = Inr emb
           \<longrightarrow> execute (build_sql (PGVECTOR_TABLE_NAME e) emb k cids tgs) = Inr rows
           \<longrightarrow> sorted_wrt (\<lambda>a b. \<forall>x y. snd (snd a) = Some x \<longrightarrow> snd (snd b) = Some y \<longrightarrow> py_ge x y) rows"
    and "\<forall>sid sd docs d md. (sid, sd) \<in> set (vector_stores e)
           \<longrightarrow> store sd query k (build_filter_dict cids tgs) = Inr docs \<longrightarrow> d \<in> set docs
           \<longrightarrow> doc_metadata d = Some md \<longrightarrow> m_similarity md \<noteq> Some NaN"
  shows "\<exists>rs n'. search e n query k bids cids tgs = (Inr rs, n')
     \<and> sorted_wrt (\<lambda>a b. py_ge (similarity a) (similarity b)) rs
     \<and> (direct_pgvector_search e n query k cids tgs = (Inr rs, n')
        \<or> (\<exists>n1 merged. merged = fst (search_stores (uuid4 e) n1 query k cids tgs (stores_to_search e bids))
              \<and> rs = py_slice_to k (sort_desc merged)
              \<and> (0 \<le> k \<longrightarrow> rs = take (nat k) (sort_desc merged))
              \<and> mset (sort_desc merged) = mset merged
              \<and> (\<forall>v. filter (\<lambda>r. similarity r = v) (sort_desc merged)
                      = filter (\<lambda>r. similarity r = v) merged)))"
proof -
  consider (direct) rs n' where "direct_pgvector_search e n query k cids tgs = (Inr rs, n')"
       "search e n query k bids cids tgs = (Inr rs, n')"
    | (fallback) n1 where "search e n query k bids cids tgs = fallback_search e n1 query k bids cids tgs"
    using search_paths[of e n query k cids tgs bids] by blast
  then show ?thesis
  proof cases
    case direct
    obtain execute emb rows where h: "get_db_connection e = Inr execute" "embed_query e query = Inr emb"
       "execute (build_sql (PGVECTOR_TABLE_NAME e) emb k cids tgs) = Inr rows"
       "process_rows (uuid4 e) n rows = (rs, n')"
      using direct_rows[OF direct(1)] by blast
    have "sorted_wrt (\<lambda>a b. \<forall>x y. snd (snd a) = Some x \<longrightarrow> snd (snd b) = Some y \<longrightarrow> py_ge x y) rows"
      using assms(1) h by blast
    then have "sorted_wrt (\<lambda>a b. py_ge (similarity a) (similarity b)) rs"
      using h(4) by (rule process_rows_sorted)
    then show ?thesis using direct by blast
  next
    case fallback
    define merged where "merged = fst (search_stores (uuid4 e) n1 query k cids tgs (stores_to_search e bids))"
    obtain n' where f: "fallback_search e n1 query k bids cids tgs
        = (Inr (py_slice_to k (sort_desc merged)), n')"
      using fallback_search_eq unfolding merged_def by blast
    have tk: "0 \<le> k \<longrightarrow> py_slice_to k (sort_desc merged) = take (nat k) (sort_desc merged)"
      by (simp add: py_slice_to_def)
    have "\<exists>m. py_slice_to k (sort_desc merged) = take m (sort_desc merged)"
      by (cases "0 \<le> k") (auto simp: py_slice_to_def)
    then obtain m where m: "py_slice_to k (sort_desc merged) = take m (sort_desc merged)" ..
    have nonan: "\<forall>r\<in>set merged. \<not> isnan (similarity r)"
    proof
      fix r assume "r \<in> set merged"
      then obtain sid sd d p where h: "(sid, sd) \<in> set (stores_to_search e bids)"
        "d \<in> set (search_store (store sd) query k (build_filter_dict cids tgs))"
        "r = format_doc (uuid4 e) p sid (info sd) d"
        unfolding merged_def
        using search_stores_mem[of "uuid4 e" n1 query k cids tgs "stores_to_search e bids" _ _ r]
        by (metis prod.collapse)
      obtain docs where dl: "store sd query k (build_filter_dict cids tgs) = Inr docs" "d \<in> set docs"
        using search_store_mem[OF h(2)] by blast
      have vs: "(sid, sd) \<in> set (vector_stores e)" using h(1) set_stores_to_search by blast
      show "\<not> isnan (similarity r)"
      proof (cases "doc_metadata d")
        case None
        then show ?thesis using h(3) by (simp add: similarity_format_doc)
      next
        case (Some md)
        then have "m_similarity md \<noteq> Some NaN" using assms(2) vs dl by blast
        then show ?thesis using h(3) Some
          by (cases "m_similarity md"; cases "the (m_similarity md)")
             (auto simp: similarity_format_doc)
      qed
    qed
    have "sorted_wrt (\<lambda>a b. py_ge (similarity a) (similarity b)) (take m (sort_desc merged))"
      using sorted_sort_desc[OF nonan] by (rule sorted_wrt_take)
    then have "sorted_wrt (\<lambda>a b. py_ge (similarity a) (similarity b)) (py_slice_to k (sort_desc merged))"
      using m by simp
    moreover have "search e n query k bids cids tgs = (Inr (py_slice_to k (sort_desc merged)), n')"
      using fallback f by simp
    ultimately show ?thesis
      using mset_sort_desc[of merged] stable_sort_desc[of _ merged] merged_def tk by blast
  qed
qed

text \<open>
  A store delivers scores 0.5, 0.9 and 0.5; with \<open>k = 2\<close> the result is the 0.9 match
  followed by the first of the two 0.5 matches.
\<close>

theorem search_sorted_descending_witness:
  "\<exists>rs n'. search (example_env False [] [(''pinecone-1'', pinecone_store (Inr tie_docs))])
        0 ''apollo guidance'' 2 None None None = (Inr rs, n')
     \<and> sorted_wrt (\<lambda>a b. py_ge (similarity a) (similarity b)) rs
     \<and> map content rs = [''beta'', ''alpha'']"
proof -
  let ?e = "example_env False [] [(''pinecone-1'', pinecone_store (Inr tie_docs))]"
  have db: "\<forall>execute emb rows. get_db_connection ?e = Inr execute \<longrightarrow> embed_query ?e ''apollo guidance'' = Inr emb
           \<longrightarrow> execute (build_sql (PGVECTOR_TABLE_NAME ?e) emb 2 None None) = Inr rows
           \<longrightarrow> sorted_wrt (\<lambda>a b. \<forall>x y. snd (snd a) = Some x \<longrightarrow> snd (snd b) = Some y \<longrightarrow> py_ge x y) rows"
    by (auto simp: example_env_def)
  have docs: "\<forall>sid sd docs d md. (sid, sd) \<in> set (vector_stores ?e)
           \<longrightarrow> store sd ''apollo guidance'' 2 (build_filter_dict None None) = Inr docs \<longrightarrow> d \<in> set docs
           \<longrightarrow> doc_metadata d = Some md \<longrightarrow> m_similarity md \<noteq> Some NaN"
    by (auto simp: example_env_def pinecone_store_def tie_docs_def plain_doc_def)
  have ev: "map_sum id (map content) (fst (search ?e 0 ''apollo guidance'' 2 None None None))
       = Inr [''beta'', ''alpha'']"
    by (simp add: example_defs tie_docs_def search_defs Let_def)
  obtain rs n' where h: "search ?e 0 ''apollo guidance'' 2 None None None = (Inr rs, n')"
     "sorted_wrt (\<lambda>a b. py_ge (similarity a) (similarity b)) rs"
    using search_sorted_descending[OF db docs, of 0 None] by blast
  then show ?thesis using ev by auto
qed

text \<open>
  C4 as stated fails when a score is NaN. PostgreSQL sorts NaN above every number, so
  \<open>ORDER BY similarity DESC\<close> returns a row whose similarity is NaN first; \<open>search\<close>
  returns the rows in that order, and \<open>NaN >= 0.9\<close> is false. After the handler has
  replaced the NaN, the list is \<open>[0.0, 0.9]\<close>, which is not descending either.
\<close>

theorem search_sorted_descending_counterexample:
  "map_sum id (map similarity) (fst (search
       (example_env True [(''alpha'', MetaEmpty, Some NaN), (''beta'', MetaEmpty, Some (Fin (9 / 10)))] [])
       0 ''apollo guidance'' 5 None None None)) = Inr [NaN, Fin (9 / 10)]
   \<and> \<not> py_ge NaN (Fin (9 / 10))
   \<and> map_sum id (map similarity) (fst (search_documents
       (example_env True [(''alpha'', MetaEmpty, Some NaN), (''beta'', MetaEmpty, Some (Fin (9 / 10)))] [])
       0 ''apollo guidance'' 5 None None None)) = Inr [Fin 0, Fin (9 / 10)]
   \<and> \<not> py_ge (Fin 0) (Fin (9 / 10))"
  by (simp add: example_defs search_defs Let_def)

subsection \<open>C5: one similarity for both paths\<close>

text \<open>
  C5. The fast path attaches the score that the database computes from the cosine
  distance. The generic path attaches \<open>metadata.get("similarity", 0.0)\<close>: the store's
  \<open>similarity_search\<close> returns documents without scores, and nothing has written a score
  into their metadata. Here one record is held by the database, which scores it 0.91
  for the query, and by a Pinecone store: through the fast path its match has similarity
  0.91, through the generic path 0.0.
\<close>

theorem fallback_similarity_ignores_query:
  "map_sum id (map similarity) (fst (search
       (example_env True [(''alpha'', MetaDict (meta_with_ids ''doc-001'' ''chunk-001''), Some (Fin (91 / 100)))]
          [(''pinecone-1'', pinecone_store (Inr [\<lparr> page_content = ''alpha'',
               doc_metadata = Some (meta_with_ids ''doc-001'' ''chunk-001'') \<rparr>]))])
       0 ''apollo guidance'' 5 None None None)) = Inr [Fin (91 / 100)]
   \<and> map_sum id (map similarity) (fst (search
       (example_env True [(''alpha'', MetaDict (meta_with_ids ''doc-001'' ''chunk-001''), Some (Fin (91 / 100)))]
          [(''pinecone-1'', pinecone_store (Inr [\<lparr> page_content = ''alpha'',
               doc_metadata = Some (meta_with_ids ''doc-001'' ''chunk-001'') \<rparr>]))])
       0 ''apollo guidance'' 5 (Some [''pinecone-1'']) None None)) = Inr [Fin 0]"
  by (simp add: example_defs search_defs Let_def)

subsection \<open>C6: a store that raises does not disturb the others\<close>



subsection \<open>C7: a failing embedding call\<close>

text \<open>
  C7, as amended. When the embedding call fails, the failure is fatal to the fast path
  only: \<open>_direct_pgvector_search\<close> raises it again, \<open>search\<close> catches it and continues
  with the generic path, and \<open>search\<close> returns the list of that path without raising.
\<close>

theorem embedding_failure_falls_back:
  assumes "embed_query e query = Inl err"
  shows "direct_pgvector_search e n query k cids tgs = (Inl err, n)
         \<and> search e n query k bids cids tgs = fallback_search e n query k bids cids tgs
         \<and> (\<exists>rs n'. search e n query k bids cids tgs = (Inr rs, n'))"
proof -
  have d: "direct_pgvector_search e n query k cids tgs = (Inl err, n)"
    using assms by (simp add: direct_pgvector_search_def)
  then have "search e n query k bids cids tgs = fallback_search e n query k bids cids tgs"
    by (simp add: search_def)
  then show ?thesis using d fallback_search_returns by simp
qed

theorem embedding_failure_falls_back_witness:
  "direct_pgvector_search ((example_env True apollo_rows [(''pinecone-1'', pinecone_store (Inr [plain_doc ''gamma'' None]))])
       \<lparr>embed_query := (\<lambda>q. Inl (EmbeddingError ''connection refused''))\<rparr>)
       0 ''apollo guidance'' 5 None None = (Inl (EmbeddingError ''connection refused''), 0)
   \<and> search ((example_env True apollo_rows [(''pinecone-1'', pinecone_store (Inr [plain_doc ''gamma'' None]))])
       \<lparr>embed_query := (\<lambda>q. Inl (EmbeddingError ''connection refused''))\<rparr>)
       0 ''apollo guidance'' 5 None None None
     = fallback_search ((example_env True apollo_rows [(''pinecone-1'', pinecone_store (Inr [plain_doc ''gamma'' None]))])
       \<lparr>embed_query := (\<lambda>q. Inl (EmbeddingError ''connection refused''))\<rparr>)
       0 ''apollo guidance'' 5 None None None
   \<and> (\<exists>rs n'. search ((example_env True apollo_rows [(''pinecone-1'', pinecone_store (Inr [plain_doc ''gamma'' None]))])
       \<lparr>embed_query := (\<lambda>q. Inl (EmbeddingError ''connection refused''))\<rparr>)
       0 ''apollo guidance'' 5 None None None = (Inr rs, n'))"
  by (rule embedding_failure_falls_back) (simp add: example_env_def)

text \<open>
  C7 as stated fails: the embedding endpoint refuses the connection, the store, which
  needs the same endpoint, raises as well, and \<open>search\<close> returns the empty list.
\<close>

theorem embedding_failure_counterexample:
  "embed_query ((example_env True apollo_rows [(''pgvector-1'', pgvector_store (Inl (EmbeddingError ''connection refused'')))])
       \<lparr>embed_query := (\<lambda>q. Inl (EmbeddingError ''connection refused''))\<rparr>) ''apollo guidance''
     = Inl (EmbeddingError ''connection refused'')
   \<and> search ((example_env True apollo_rows [(''pgvector-1'', pgvector_store (Inl (EmbeddingError ''connection refused'')))])
       \<lparr>embed_query := (\<lambda>q. Inl (EmbeddingError ''connection refused''))\<rparr>)
       0 ''apollo guidance'' 5 None None None = (Inr [], 0)"
  by (simp add: example_defs search_defs Let_def)

subsection \<open>C8: filter values in the query text\<close>

text \<open>
  C8. The query text that \<open>_direct_pgvector_search\<close> sends contains the collection ids and
  the tags themselves: here a tag with a single quote in it closes the SQL string and
  adds a condition of its own, and two calls that differ only in a tag send different
  texts. No value is passed as a bound parameter: \<open>cursor.execute(sql)\<close> is called with
  the text alone.
\<close>

theorem sql_text_contains_filter_values:
  "build_sql ''documents'' [''0.1'', ''-0.2''] 5 (Some [''apollo-11'']) (Some [''nasa' OR 'a'='a''])
   = ''\<newline>                SELECT content, metadata, \<newline>                       1 - (embedding <=> '[0.1,-0.2]'::vector) AS similarity\<newline>                FROM documents\<newline>             WHERE metadata->>'collection' IN ('apollo-11') AND (metadata->'tags' ? 'nasa' OR 'a'='a') ORDER BY similarity DESC LIMIT 5''
   \<and> build_sql ''documents'' [''0.1'', ''-0.2''] 5 None (Some [''nasa''])
     \<noteq> build_sql ''documents'' [''0.1'', ''-0.2''] 5 None (Some [''esa''])"
  by (simp add: build_sql_def select_sql_def vector_str_of_def where_clauses_def collection_clause_def
        tag_condition_def quote_def str_int_def digit_char_def Let_def)

subsection \<open>C9: repeating a search\<close>

text \<open>
  C9, as amended. Two identical calls against the same environment, from any two states
  of the identifier generator, return lists that agree in order and in every field other
  than \<open>documentId\<close> and \<open>chunkId\<close>; they agree in these as well when every record that
  the database and the stores deliver carries both identifiers.
\<close>

theorem repeated_search_same_up_to_fresh_ids:
  "map_sum id (map without_ids) (fst (search e n query k bids cids tgs))
     = map_sum id (map without_ids) (fst (search e m query k bids cids tgs))
   \<and> ((\<forall>execute sql rows row. get_db_connection e = Inr execute \<longrightarrow> execute sql = Inr rows
          \<longrightarrow> row \<in> set rows
          \<longrightarrow> snd (snd row) = None \<or> fst (snd row) = MetaMalformed
              \<or> (\<exists>md. fst (snd row) = MetaDict md \<and> m_documentId md \<noteq> None \<and> m_chunkId md \<noteq> None))
       \<and> (\<forall>sid sd docs d. (sid, sd) \<in> set (vector_stores e)
          \<longrightarrow> store sd query k (build_filter_dict cids tgs) = Inr docs \<longrightarrow> d \<in> set docs
          \<longrightarrow> (\<exists>md. doc_metadata d = Some md \<and> m_documentId md \<noteq> None \<and> m_chunkId md \<noteq> None))
      \<longrightarrow> fst (search e n query k bids cids tgs) = fst (search e m query k bids cids tgs))"
proof (intro conjI impI)
  show "map_sum id (map without_ids) (fst (search e n query k bids cids tgs))
     = map_sum id (map without_ids) (fst (search e m query k bids cids tgs))"
    by (rule search_modulo)
       (simp_all add: similarity_without_ids process_row_without_ids format_doc_without_ids)
next
  assume h: "(\<forall>execute sql rows row. get_db_connection e = Inr execute \<longrightarrow> execute sql = Inr rows
          \<longrightarrow> row \<in> set rows
          \<longrightarrow> snd (snd row) = None \<or> fst (snd row) = MetaMalformed
              \<or> (\<exists>md. fst (snd row) = MetaDict md \<and> m_documentId md \<noteq> None \<and> m_chunkId md \<noteq> None))
       \<and> (\<forall>sid sd docs d. (sid, sd) \<in> set (vector_stores e)
          \<longrightarrow> store sd query k (build_filter_dict cids tgs) = Inr docs \<longrightarrow> d \<in> set docs
          \<longrightarrow> (\<exists>md. doc_metadata d = Some md \<and> m_documentId md \<noteq> None \<and> m_chunkId md \<noteq> None))"
  have "map_sum id (map id) (fst (search e n query k bids cids tgs))
     = map_sum id (map id) (fst (search e m query k bids cids tgs))"
  proof (rule search_modulo)
    show "similarity (id x) = similarity x" for x :: DocumentResponse by simp
    show "\<forall>execute sql rows row a b. get_db_connection e = Inr execute \<longrightarrow> execute sql = Inr rows
         \<longrightarrow> row \<in> set rows
         \<longrightarrow> map_sum id id (fst (process_row (uuid4 e) a row)) = map_sum id id (fst (process_row (uuid4 e) b row))"
      using h process_row_with_ids by (metis (no_types, lifting))
    show "\<forall>sid sd docs d a b. (sid, sd) \<in> set (vector_stores e)
         \<longrightarrow> store sd query k (build_filter_dict cids tgs) = Inr docs \<longrightarrow> d \<in> set docs
         \<longrightarrow> id (format_doc (uuid4 e) a sid (info sd) d) = id (format_doc (uuid4 e) b sid (info sd) d)"
      using h format_doc_with_ids by (metis (no_types, lifting) id_apply)
  qed
  then show "fst (search e n query k bids cids tgs) = fst (search e m query k bids cids tgs)"
    by (simp add: sum.map_id0)
qed

theorem repeated_search_witness:
  "map_sum id (map without_ids) (fst (search (example_env True apollo_rows []) 0 ''apollo guidance'' 5 None None None))
     = map_sum id (map without_ids) (fst (search (example_env True apollo_rows []) 4 ''apollo guidance'' 5 None None None))
   \<and> fst (search (example_env True apollo_rows []) 0 ''apollo guidance'' 5 None None None)
     = fst (search (example_env True apollo_rows []) 4 ''apollo guidance'' 5 None None None)"
proof -
  let ?e = "example_env True apollo_rows []"
  have rows: "\<forall>execute sql rows row. get_db_connection ?e = Inr execute \<longrightarrow> execute sql = Inr rows
          \<longrightarrow> row \<in> set rows
          \<longrightarrow> snd (snd row) = None \<or> fst (snd row) = MetaMalformed
              \<or> (\<exists>md. fst (snd row) = MetaDict md \<and> m_documentId md \<noteq> None \<and> m_chunkId md \<noteq> None)"
    by (auto simp: example_env_def apollo_rows_def meta_with_ids_def)
  have docs: "\<forall>sid sd docs d. (sid, sd) \<in> set (vector_stores ?e)
          \<longrightarrow> store sd ''apollo guidance'' 5 (build_filter_dict None None) = Inr docs \<longrightarrow> d \<in> set docs
          \<longrightarrow> (\<exists>md. doc_metadata d = Some md \<and> m_documentId md \<noteq> None \<and> m_chunkId md \<noteq> None)"
    by (simp add: example_env_def)
  show ?thesis
    using repeated_search_same_up_to_fresh_ids[of ?e 0 "''apollo guidance''" 5 None None None 4] rows docs
    by blast
qed

text \<open>
  C9 as stated fails for a record without identifiers: the second call, which starts
  where the first left the generator, synthesizes other identifiers than the first.
\<close>

theorem repeated_search_counterexample:
  "fst (search (example_env True [(''alpha'', MetaEmpty, Some (Fin (91 / 100)))] []) 0 ''apollo guidance'' 5 None None None)
   \<noteq> fst (search (example_env True [(''alpha'', MetaEmpty, Some (Fin (91 / 100)))] [])
           (snd (search (example_env True [(''alpha'', MetaEmpty, Some (Fin (91 / 100)))] []) 0 ''apollo guidance'' 5 None None None))
           ''apollo guidance'' 5 None None None)"
  by (simp add: example_defs search_defs Let_def example_uuid4_def digit_char_def)

subsection \<open>C10: the identifiers of a match\<close>

text \<open>
  C10, as amended. Every match of a returned list belongs to a record that the database
  or a store delivered, with the same content. Its \<open>documentId\<close> is the one in the
  record's metadata when the key is present, whatever its value, and otherwise the value
  of a \<open>uuid4\<close> call; likewise its \<open>chunkId\<close>, with the next call. The two calls of a
  match are made at a generator state of its own, two apart from that of any other
  match, so no call of \<open>uuid4\<close> serves two identifiers.
\<close>

theorem search_identifiers:
  assumes "search e n query k bids cids tgs = (Inr rs, n')"
  shows "\<exists>prs. map snd prs = rs \<and> distinct (map fst prs)
     \<and> (\<forall>(p, r)\<in>set prs. n \<le> p \<and> p + 2 \<le> n' \<and> even (p - n)
          \<and> (\<exists>md. ((\<exists>execute sql rows c mj s. get_db_connection e = Inr execute
                         \<and> execute sql = Inr rows \<and> (c, mj, Some s) \<in> set rows \<and> content r = c
                         \<and> md = (case mj of MetaDict d \<Rightarrow> d | _ \<Rightarrow> empty_meta))
                     \<or> (\<exists>sid sd docs d. (sid, sd) \<in> set (vector_stores e)
                         \<and> store sd query k (build_filter_dict cids tgs) = Inr docs \<and> d \<in> set docs
                         \<and> content r = page_content d
                         \<and> md = (case doc_metadata d of Some x \<Rightarrow> x | None \<Rightarrow> empty_meta)))
                \<and> documentId (metadata r)
                    = (case m_documentId md of Some v \<Rightarrow> v | None \<Rightarrow> uuid4 e p)
                \<and> chunkId (metadata r)
                    = (case m_chunkId md of Some v \<Rightarrow> v | None \<Rightarrow> uuid4 e (p + 1))))"
proof -
  consider (direct) "direct_pgvector_search e n query k cids tgs = (Inr rs, n')"
    | (fallback) n1 where "n \<le> n1" "even (n1 - n)"
        "fallback_search e n1 query k bids cids tgs = (Inr rs, n')"
    using search_paths_counter[of e n query k cids tgs bids] assms by auto
  then show ?thesis
  proof cases
    case direct
    then obtain execute emb rows where h: "get_db_connection e = Inr execute"
       "execute (build_sql (PGVECTOR_TABLE_NAME e) emb k cids tgs) = Inr rows"
       "process_rows (uuid4 e) n rows = (rs, n')"
      using direct_rows by blast
    from process_rows_draws[OF h(3)] obtain prs where p: "map snd prs = rs" "draws n n' prs"
       "\<forall>(p, r)\<in>set prs. \<exists>row\<in>set rows. process_row (uuid4 e) p row = (Inr r, p + 2)"
      by blast
    have "n \<le> p \<and> p + 2 \<le> n' \<and> even (p - n)
          \<and> (\<exists>md. ((\<exists>execute sql rows c mj s. get_db_connection e = Inr execute
                         \<and> execute sql = Inr rows \<and> (c, mj, Some s) \<in> set rows \<and> content r = c
                         \<and> md = (case mj of MetaDict d \<Rightarrow> d | _ \<Rightarrow> empty_meta))
                     \<or> (\<exists>sid sd docs d. (sid, sd) \<in> set (vector_stores e)
                         \<and> store sd query k (build_filter_dict cids tgs) = Inr docs \<and> d \<in> set docs
                         \<and> content r = page_content d
                         \<and> md = (case doc_metadata d of Some x \<Rightarrow> x | None \<Rightarrow> empty_meta)))
                \<and> documentId (metadata r)
                    = (case m_documentId md of Some v \<Rightarrow> v | None \<Rightarrow> uuid4 e p)
                \<and> chunkId (metadata r)
                    = (case m_chunkId md of Some v \<Rightarrow> v | None \<Rightarrow> uuid4 e (p + 1)))"
      if pr: "(p, r) \<in> set prs" for p r
    proof -
      have w: "n \<le> p \<and> p + 2 \<le> n' \<and> even (p - n)" using p(2) pr unfolding draws_def by blast
      obtain row where row: "row \<in> set rows" "process_row (uuid4 e) p row = (Inr r, p + 2)"
        using p(3) pr by blast
      obtain c mj s where ids: "row = (c, mj, Some s)" "content r = c"
        "documentId (metadata r)
         = (case m_documentId (case mj of MetaDict d \<Rightarrow> d | _ \<Rightarrow> empty_meta) of
              Some v \<Rightarrow> v | None \<Rightarrow> uuid4 e p)"
        "chunkId (metadata r)
         = (case m_chunkId (case mj of MetaDict d \<Rightarrow> d | _ \<Rightarrow> empty_meta) of
              Some v \<Rightarrow> v | None \<Rightarrow> uuid4 e (p + 1))"
        using process_row_ids[OF row(2)] by blast
      have "\<exists>execute sql rows c' mj' s. get_db_connection e = Inr execute
                         \<and> execute sql = Inr rows \<and> (c', mj', Some s) \<in> set rows \<and> content r = c'
                         \<and> (case mj of MetaDict d \<Rightarrow> d | _ \<Rightarrow> empty_meta)
                             = (case mj' of MetaDict d \<Rightarrow> d | _ \<Rightarrow> empty_meta)"
        using h(1,2) row(1) ids(1,2) by blast
      then show ?thesis using w ids(3,4) by blast
    qed
    then show ?thesis using p(1,2) unfolding draws_def by blast
  next
    case fallback
    from fallback_draws[OF fallback(3)] obtain prs where p: "n1 \<le> n'" "map snd prs = rs"
      "draws n1 n' prs"
      "\<forall>(p, r)\<in>set prs. \<exists>(sid, sd)\<in>set (stores_to_search e bids).
            \<exists>d\<in>set (search_store (store sd) query k (build_filter_dict cids tgs)).
              r = format_doc (uuid4 e) p sid (info sd) d"
      by blast
    have dr: "draws n n' prs" using draws_widen[OF p(3) fallback(1) _ fallback(2)] by simp
    have "n \<le> p \<and> p + 2 \<le> n' \<and> even (p - n)
          \<and> (\<exists>md. ((\<exists>execute sql rows c mj s. get_db_connection e = Inr execute
                         \<and> execute sql = Inr rows \<and> (c, mj, Some s) \<in> set rows \<and> content r = c
                         \<and> md = (case mj of MetaDict d \<Rightarrow> d | _ \<Rightarrow> empty_meta))
                     \<or> (\<exists>sid sd docs d. (sid, sd) \<in> set (vector_stores e)
                         \<and> store sd query k (build_filter_dict cids tgs) = Inr docs \<and> d \<in> set docs
                         \<and> content r = page_content d
                         \<and> md = (case doc_metadata d of Some x \<Rightarrow> x | None \<Rightarrow> empty_meta)))
                \<and> documentId (metadata r)
                    = (case m_documentId md of Some v \<Rightarrow> v | None \<Rightarrow> uuid4 e p)
                \<and> chunkId (metadata r)
                    = (case m_chunkId md of Some v \<Rightarrow> v | None \<Rightarrow> uuid4 e (p + 1)))"
      if pr: "(p, r) \<in> set prs" for p r
    proof -
      have w: "n \<le> p \<and> p + 2 \<le> n' \<and> even (p - n)" using dr pr unfolding draws_def by blast
      obtain sid sd d where src: "(sid, sd) \<in> set (stores_to_search e bids)"
         "d \<in> set (search_store (store sd) query k (build_filter_dict cids tgs))"
         "r = format_doc (uuid4 e) p sid (info sd) d"
        using p(4) pr by blast
      obtain docs where docs: "store sd query k (build_filter_dict cids tgs) = Inr docs" "d \<in> set docs"
        using search_store_mem[OF src(2)] by blast
      have vs: "(sid, sd) \<in> set (vector_stores e)" using src(1) set_stores_to_search by blast
      have "\<exists>sid sd docs d'. (sid, sd) \<in> set (vector_stores e)
                         \<and> store sd query k (build_filter_dict cids tgs) = Inr docs \<and> d' \<in> set docs
                         \<and> content r = page_content d'
                         \<and> (case doc_metadata d of Some x \<Rightarrow> x | None \<Rightarrow> empty_meta)
                            = (case doc_metadata d' of Some x \<Rightarrow> x | None \<Rightarrow> empty_meta)"
        using vs docs src(3) format_doc_ids[of "uuid4 e" p sid "info sd" d] by blast
      then show ?thesis using w src(3) format_doc_ids[of "uuid4 e" p sid "info sd" d] by blast
    qed
    then show ?thesis using p(2) dr unfolding draws_def by blast
  qed
qed

theorem search_identifiers_witness:
  "\<exists>prs. map snd prs = [pgvector_match ''alpha'' ''uuid-0'' ''uuid-1'' (Fin (91 / 100))]
     \<and> distinct (map fst prs)
     \<and> (\<forall>(p, r)\<in>set prs. 0 \<le> p \<and> p + 2 \<le> 2 \<and> even (p - 0)
          \<and> (\<exists>md. ((\<exists>execute sql rows c mj s.
                         get_db_connection (example_env True [(''alpha'', MetaEmpty, Some (Fin (91 / 100)))] [])
                           = Inr execute
                         \<and> execute sql = Inr rows \<and> (c, mj, Some s) \<in> set rows \<and> content r = c
                         \<and> md = (case mj of MetaDict d \<Rightarrow> d | _ \<Rightarrow> empty_meta))
                     \<or> (\<exists>sid sd docs d. (sid, sd) \<in> set (vector_stores
                              (example_env True [(''alpha'', MetaEmpty, Some (Fin (91 / 100)))] []))
                         \<and> store sd ''apollo guidance'' 5 (build_filter_dict None None) = Inr docs
                         \<and> d \<in> set docs \<and> content r = page_content d
                         \<and> md = (case doc_metadata d of Some x \<Rightarrow> x | None \<Rightarrow> empty_meta)))
                \<and> documentId (metadata r)
                    = (case m_documentId md of Some v \<Rightarrow> v
                       | None \<Rightarrow> uuid4 (example_env True [(''alpha'', MetaEmpty, Some (Fin (91 / 100)))] []) p)
                \<and> chunkId (metadata r)
                    = (case m_chunkId md of Some v \<Rightarrow> v
                       | None \<Rightarrow> uuid4 (example_env True [(''alpha'', MetaEmpty, Some (Fin (91 / 100)))] []) (p + 1))))"
proof -
  have "search (example_env True [(''alpha'', MetaEmpty, Some (Fin (91 / 100)))] [])
          0 ''apollo guidance'' 5 None None None
        = (Inr [pgvector_match ''alpha'' ''uuid-0'' ''uuid-1'' (Fin (91 / 100))], 2)"
    by (simp add: example_defs search_defs Let_def example_uuid4_def digit_char_def)
  then show ?thesis by (rule search_identifiers)
qed

text \<open>
  C10 as stated fails for a record whose metadata holds an empty \<open>documentId\<close>: the key
  is present, so the match carries the empty string.
\<close>

theorem search_identifiers_counterexample:
  "map_sum id (map (documentId \<circ> metadata)) (fst (search
       (example_env True [(''alpha'', MetaDict (meta_with_ids [] ''chunk-001''), Some (Fin (91 / 100)))] [])
       0 ''apollo guidance'' 5 None None None)) = Inr [[]]"
  by (simp add: example_defs search_defs Let_def)

end
